theory Spec2Isabelle
  imports Complex_Main "HOL-Library.Log_Nat" "HOL-Library.Word"
begin

section \<open>The C types of the program\<close>

subsection \<open>Binary floating point\<close>

text \<open>
  \<^verbatim>\<open>float\<close> and \<^verbatim>\<open>double\<close> are IEEE 754 binary32 and binary64, every operation rounded
  to nearest, ties to even, in the format of its C type (\<^verbatim>\<open>FLT_EVAL_METHOD\<close> 0).
  A value is a real number, an infinity or a NaN.  The sign of a zero is not
  represented: the program compares floats, adds, subtracts and multiplies them,
  divides by the constant 60 and truncates to an integer, and none of these tells
  \<open>-0\<close> from \<open>+0\<close>.
\<close>

datatype fp = Finite real | PlusInf | MinusInf | NaN

text \<open>\<open>ilog2 x\<close> is the binary exponent of \<open>x > 0\<close>: \<open>2 powi ilog2 x \<le> x < 2 powi (ilog2 x + 1)\<close>.\<close>

definition ilog2 :: "real \<Rightarrow> int" where
  "ilog2 x = (if 1 \<le> x then bitlen \<lfloor>x\<rfloor> - 1 else - bitlen (\<lceil>1 / x\<rceil> - 1))"

definition round_half_even :: "real \<Rightarrow> int" where
  "round_half_even x =
     (let n = \<lfloor>x\<rfloor>; r = x - of_int n
      in if r < 1 / 2 then n else if 1 / 2 < r then n + 1 else if even n then n else n + 1)"

text \<open>
  Rounding to the format with \<open>p\<close> significant bits and exponents \<open>emin .. emax\<close>:
  the quantum is the spacing of the format in the binade of \<open>x\<close> (the subnormal
  spacing below \<open>2 powi emin\<close>), \<open>nearest\<close> is the multiple of the quantum nearest to
  \<open>x\<close>, and the result is an infinity when that multiple is beyond the largest finite
  value of the format.
\<close>

definition quantum :: "nat \<Rightarrow> int \<Rightarrow> real \<Rightarrow> real" where
  "quantum p emin x = 2 powi (max (ilog2 \<bar>x\<bar>) emin - int p + 1)"

definition nearest :: "nat \<Rightarrow> int \<Rightarrow> real \<Rightarrow> real" where
  "nearest p emin x = of_int (round_half_even (x / quantum p emin x)) * quantum p emin x"

definition round_to :: "nat \<Rightarrow> int \<Rightarrow> int \<Rightarrow> real \<Rightarrow> fp" where
  "round_to p emin emax x =
     (if x = 0 then Finite 0
      else if 2 powi (emax + 1) \<le> \<bar>nearest p emin x\<bar>
           then (if 0 < x then PlusInf else MinusInf)
           else Finite (nearest p emin x))"

definition float_round :: "real \<Rightarrow> fp" where
  "float_round = round_to 24 (- 126) 127"

definition double_round :: "real \<Rightarrow> fp" where
  "double_round = round_to 53 (- 1022) 1023"

abbreviation near32 :: "real \<Rightarrow> real" where
  "near32 \<equiv> nearest 24 (- 126)"

text \<open>The values of type \<^verbatim>\<open>float\<close>: the reals that rounding to binary32 leaves alone.\<close>

definition is_float :: "real \<Rightarrow> bool" where
  "is_float x \<longleftrightarrow> float_round x = Finite x"

fun fp_neg :: "fp \<Rightarrow> fp" where
  "fp_neg (Finite a) = Finite (- a)"
| "fp_neg PlusInf = MinusInf"
| "fp_neg MinusInf = PlusInf"
| "fp_neg NaN = NaN"

fun fp_add :: "(real \<Rightarrow> fp) \<Rightarrow> fp \<Rightarrow> fp \<Rightarrow> fp" where
  "fp_add rnd (Finite a) (Finite b) = rnd (a + b)"
| "fp_add rnd NaN b = NaN"
| "fp_add rnd a NaN = NaN"
| "fp_add rnd PlusInf MinusInf = NaN"
| "fp_add rnd MinusInf PlusInf = NaN"
| "fp_add rnd PlusInf b = PlusInf"
| "fp_add rnd MinusInf b = MinusInf"
| "fp_add rnd a PlusInf = PlusInf"
| "fp_add rnd a MinusInf = MinusInf"

definition fp_sub :: "(real \<Rightarrow> fp) \<Rightarrow> fp \<Rightarrow> fp \<Rightarrow> fp" where
  "fp_sub rnd a b = fp_add rnd a (fp_neg b)"

fun fp_sign :: "fp \<Rightarrow> int" where
  "fp_sign (Finite a) = (if a < 0 then - 1 else if a = 0 then 0 else 1)"
| "fp_sign PlusInf = 1"
| "fp_sign MinusInf = - 1"
| "fp_sign NaN = 0"

definition inf_of_sign :: "int \<Rightarrow> fp" where
  "inf_of_sign k = (if k = 0 then NaN else if 0 < k then PlusInf else MinusInf)"

fun fp_mul :: "(real \<Rightarrow> fp) \<Rightarrow> fp \<Rightarrow> fp \<Rightarrow> fp" where
  "fp_mul rnd (Finite a) (Finite b) = rnd (a * b)"
| "fp_mul rnd NaN b = NaN"
| "fp_mul rnd a NaN = NaN"
| "fp_mul rnd a b = inf_of_sign (fp_sign a * fp_sign b)"

text \<open>A finite value over zero is the infinity of the dividend's sign (the zero taken as \<open>+0\<close>).\<close>

fun fp_div :: "(real \<Rightarrow> fp) \<Rightarrow> fp \<Rightarrow> fp \<Rightarrow> fp" where
  "fp_div rnd (Finite a) (Finite b) = (if b = 0 then inf_of_sign (fp_sign (Finite a)) else rnd (a / b))"
| "fp_div rnd NaN b = NaN"
| "fp_div rnd a NaN = NaN"
| "fp_div rnd (Finite a) b = Finite 0"
| "fp_div rnd a (Finite b) = inf_of_sign (fp_sign a * (if b < 0 then - 1 else 1))"
| "fp_div rnd a b = NaN"

text \<open>Comparisons: every comparison with a NaN is false.\<close>

fun fp_lt :: "fp \<Rightarrow> fp \<Rightarrow> bool" where
  "fp_lt (Finite a) (Finite b) = (a < b)"
| "fp_lt NaN b = False"
| "fp_lt a NaN = False"
| "fp_lt a MinusInf = False"
| "fp_lt PlusInf b = False"
| "fp_lt a b = True"

fun fp_le :: "fp \<Rightarrow> fp \<Rightarrow> bool" where
  "fp_le (Finite a) (Finite b) = (a \<le> b)"
| "fp_le NaN b = False"
| "fp_le a NaN = False"
| "fp_le MinusInf b = True"
| "fp_le a PlusInf = True"
| "fp_le a b = False"

definition fp_ge :: "fp \<Rightarrow> fp \<Rightarrow> bool" where
  "fp_ge a b = fp_le b a"

abbreviation fadd :: "fp \<Rightarrow> fp \<Rightarrow> fp" where "fadd \<equiv> fp_add float_round"
abbreviation fsub :: "fp \<Rightarrow> fp \<Rightarrow> fp" where "fsub \<equiv> fp_sub float_round"
abbreviation fmul :: "fp \<Rightarrow> fp \<Rightarrow> fp" where "fmul \<equiv> fp_mul float_round"
abbreviation fdiv :: "fp \<Rightarrow> fp \<Rightarrow> fp" where "fdiv \<equiv> fp_div float_round"
abbreviation dadd :: "fp \<Rightarrow> fp \<Rightarrow> fp" where "dadd \<equiv> fp_add double_round"

text \<open>A decimal constant of the source has type \<^verbatim>\<open>double\<close>.\<close>

definition double_const :: "real \<Rightarrow> fp" where
  "double_const c = double_round c"

text \<open>Conversion \<^verbatim>\<open>double\<close> to \<^verbatim>\<open>float\<close> rounds; \<^verbatim>\<open>float\<close> to \<^verbatim>\<open>double\<close> is exact.\<close>

fun double_to_float :: "fp \<Rightarrow> fp" where
  "double_to_float (Finite a) = float_round a"
| "double_to_float a = a"

definition int_to_float :: "int \<Rightarrow> fp" where
  "int_to_float n = float_round (of_int n)"

subsection \<open>Undefined behaviour\<close>

datatype fault = Float_to_integer_range | Signed_overflow | Uninitialised_read

definition then_do :: "fault + 'a \<Rightarrow> ('a \<Rightarrow> fault + 'b) \<Rightarrow> fault + 'b" where
  "then_do m f = (case m of Inl e \<Rightarrow> Inl e | Inr a \<Rightarrow> f a)"

text \<open>
  Conversion of a float to an integer type drops the fraction; it is undefined when the
  integral part is not a value of the type.
\<close>

definition trunc :: "real \<Rightarrow> int" where
  "trunc a = (if 0 \<le> a then \<lfloor>a\<rfloor> else \<lceil>a\<rceil>)"

definition float_to_integer :: "int \<Rightarrow> int \<Rightarrow> fp \<Rightarrow> fault + int" where
  "float_to_integer lo hi a =
     (case a of
        Finite r \<Rightarrow> if lo \<le> trunc r \<and> trunc r \<le> hi then Inr (trunc r)
                    else Inl Float_to_integer_range
      | _ \<Rightarrow> Inl Float_to_integer_range)"

definition INT_MIN :: int where "INT_MIN = - 2147483648"
definition INT_MAX :: int where "INT_MAX = 2147483647"

definition float_to_int :: "fp \<Rightarrow> fault + int" where
  "float_to_int = float_to_integer INT_MIN INT_MAX"

definition float_to_ushort :: "fp \<Rightarrow> fault + 16 word" where
  "float_to_ushort a = then_do (float_to_integer 0 65535 a) (\<lambda>n. Inr (word_of_int n))"

text \<open>Arithmetic of type \<^verbatim>\<open>int\<close>: a result outside the type is undefined behaviour.\<close>

definition int_result :: "int \<Rightarrow> fault + int" where
  "int_result n = (if INT_MIN \<le> n \<and> n \<le> INT_MAX then Inr n else Inl Signed_overflow)"

section \<open>Conversion of HSV to RGB\<close>

text \<open>
  The two normalising loops of \<^verbatim>\<open>hsv_to_rgb\<close>; \<open>None\<close> is a loop that does not end.
\<close>

partial_function (option) while_ge_360 :: "fp \<Rightarrow> fp option" where
  "while_ge_360 h =
     (if fp_ge h (int_to_float 360) then while_ge_360 (fsub h (int_to_float 360)) else Some h)"

partial_function (option) while_lt_0 :: "fp \<Rightarrow> fp option" where
  "while_lt_0 h =
     (if fp_lt h (int_to_float 0) then while_lt_0 (fadd h (int_to_float 360)) else Some h)"

definition normalise_hue :: "fp \<Rightarrow> fp option" where
  "normalise_hue h = Option.bind (while_ge_360 h) while_lt_0"

text \<open>
  The rest of \<^verbatim>\<open>hsv_to_rgb\<close>, from \<^verbatim>\<open>int i = h / 60\<close> on.  The \<^verbatim>\<open>switch\<close> is written
  for any type of the four values, to speak of the channels it selects as well.
\<close>

definition sector_select :: "int \<Rightarrow> 'a \<Rightarrow> 'a \<Rightarrow> 'a \<Rightarrow> 'a \<Rightarrow> 'a \<times> 'a \<times> 'a" where
  "sector_select i v p q t =
     (if i = 0 then (v, t, p)
      else if i = 1 then (q, v, p)
      else if i = 2 then (p, v, t)
      else if i = 3 then (p, q, v)
      else if i = 4 then (t, p, v)
      else (v, p, q))"

text \<open>\<^verbatim>\<open>(int)(r1 * 255)\<close>\<close>

definition channel :: "fp \<Rightarrow> fault + int" where
  "channel c = float_to_int (fmul c (int_to_float 255))"

definition hsv_sector :: "fp \<Rightarrow> fp \<Rightarrow> fp \<Rightarrow> fault + int \<times> int \<times> int" where
  "hsv_sector h s v =
     then_do (float_to_int (fdiv h (int_to_float 60))) (\<lambda>i.
       let f = fsub (fdiv h (int_to_float 60)) (int_to_float i);
           p = fmul v (fsub (int_to_float 1) s);
           q = fmul v (fsub (int_to_float 1) (fmul s f));
           t = fmul v (fsub (int_to_float 1) (fmul s (fsub (int_to_float 1) f)))
       in case sector_select i v p q t of
            (r1, g1, b1) \<Rightarrow>
              then_do (channel r1) (\<lambda>r.
              then_do (channel g1) (\<lambda>g.
              then_do (channel b1) (\<lambda>b.
                Inr (r, g, b)))))"

definition hsv_to_rgb :: "fp \<Rightarrow> fp \<Rightarrow> fp \<Rightarrow> (fault + int \<times> int \<times> int) option" where
  "hsv_to_rgb h s v = map_option (\<lambda>h'. hsv_sector h' s v) (normalise_hue h)"

text \<open>The initial values of \<^verbatim>\<open>h\<close>, \<^verbatim>\<open>s\<close> and \<^verbatim>\<open>v\<close> in \<^verbatim>\<open>main\<close> of \<^verbatim>\<open>submission/hello.c\<close>.\<close>

definition main_h0 :: fp where "main_h0 = double_to_float (double_const 0)"
definition main_s0 :: fp where "main_s0 = double_to_float (double_const 1)"
definition main_v0 :: fp where "main_v0 = double_to_float (double_const (3 / 10))"

section \<open>The device channel\<close>

text \<open>
  Modelled from the spec: the header \<^verbatim>\<open>vga_ball.h\<close> (the types \<^verbatim>\<open>vga_ball_color_t\<close>,
  \<^verbatim>\<open>vga_ball_position_t\<close>, \<^verbatim>\<open>vga_ball_arg_t\<close> and the four request codes) is not among
  the sources.  A colour is three unsigned 8-bit channels, a position two unsigned
  16-bit fields (\<^verbatim>\<open>x\<close> and \<^verbatim>\<open>y\<close>, here \<open>pos_x\<close> and \<open>pos_y\<close>), and the control
  structure carries either of them, which one being implied by the request;
  \<open>Indeterminate\<close> is the structure a read request is issued with, not yet written.
\<close>

record vga_ball_color_t =
  red :: "8 word"
  green :: "8 word"
  blue :: "8 word"

record vga_ball_position_t =
  pos_x :: "16 word"
  pos_y :: "16 word"

datatype vga_ball_arg_t =
  Background vga_ball_color_t | Position vga_ball_position_t | Indeterminate

datatype request =
  VGA_BALL_READ_BACKGROUND | VGA_BALL_WRITE_BACKGROUND
| VGA_BALL_READ_POSITION | VGA_BALL_WRITE_POSITION

text \<open>
  The driver is outside the program: a function of its own state \<open>'d\<close>, the request and
  the structure passed, giving the return value of \<^verbatim>\<open>ioctl\<close> (zero is success), the
  structure as the driver leaves it, and its next state.
\<close>

type_synonym 'd driver_fn = "'d \<Rightarrow> request \<Rightarrow> vga_ball_arg_t \<Rightarrow> int \<times> vga_ball_arg_t \<times> 'd"

datatype console_line =
  Background_line vga_ball_arg_t
| Position_line vga_ball_arg_t
| Hsv_line fp fp fp int int int

text \<open>
  What the process does to its surroundings: the driver state, the \<^verbatim>\<open>ioctl\<close> calls
  issued so far (oldest first), and the lines written to \<^verbatim>\<open>stderr\<close> (by \<^verbatim>\<open>perror\<close>, the
  text before the colon) and to \<^verbatim>\<open>stdout\<close>.
\<close>

record 'd world =
  driver :: 'd
  ioctls :: "(request \<times> vga_ball_arg_t) list"
  stderr :: "string list"
  stdout :: "console_line list"

definition ioctl ::
  "'d driver_fn \<Rightarrow> request \<Rightarrow> vga_ball_arg_t \<Rightarrow> 'd world \<Rightarrow> int \<times> vga_ball_arg_t \<times> 'd world" where
  "ioctl drv req arg w =
     (case drv (driver w) req arg of
        (rc, arg', d') \<Rightarrow> (rc, arg', w\<lparr>driver := d', ioctls := ioctls w @ [(req, arg)]\<rparr>))"

definition perror :: "string \<Rightarrow> 'd world \<Rightarrow> 'd world" where
  "perror msg w = w\<lparr>stderr := stderr w @ [msg]\<rparr>"

definition printf :: "console_line \<Rightarrow> 'd world \<Rightarrow> 'd world" where
  "printf l w = w\<lparr>stdout := stdout w @ [l]\<rparr>"

definition print_background_color :: "'d driver_fn \<Rightarrow> 'd world \<Rightarrow> 'd world" where
  "print_background_color drv w =
     (case ioctl drv VGA_BALL_READ_BACKGROUND Indeterminate w of
        (rc, vla, w') \<Rightarrow>
          if rc \<noteq> 0 then perror ''ioctl(VGA_BALL_READ_BACKGROUND) failed'' w'
          else printf (Background_line vla) w')"

definition set_background_color :: "'d driver_fn \<Rightarrow> vga_ball_color_t \<Rightarrow> 'd world \<Rightarrow> 'd world" where
  "set_background_color drv c w =
     (case ioctl drv VGA_BALL_WRITE_BACKGROUND (Background c) w of
        (rc, vla, w') \<Rightarrow>
          if rc \<noteq> 0 then perror ''ioctl(VGA_BALL_SET_BACKGROUND) failed'' w'
          else w')"

definition print_position :: "'d driver_fn \<Rightarrow> 'd world \<Rightarrow> 'd world" where
  "print_position drv w =
     (case ioctl drv VGA_BALL_READ_POSITION Indeterminate w of
        (rc, vla, w') \<Rightarrow>
          if rc \<noteq> 0 then perror ''ioctl(VGA_BALL_READ_POSITION) failed'' w'
          else printf (Position_line vla) w')"

definition set_position :: "'d driver_fn \<Rightarrow> vga_ball_position_t \<Rightarrow> 'd world \<Rightarrow> 'd world" where
  "set_position drv position w =
     (case ioctl drv VGA_BALL_WRITE_POSITION (Position position) w of
        (rc, vla, w') \<Rightarrow>
          if rc \<noteq> 0 then perror ''ioctl(VGA_BALL_SET_POSITION) failed'' w'
          else w')"

section \<open>The animation loop of \<^verbatim>\<open>submission/hello.c\<close> (pixel space)\<close>

text \<open>The local variables of \<^verbatim>\<open>main\<close> that the loop reads and writes.\<close>

record main_vars =
  var_h :: fp
  var_s :: fp
  var_v :: fp
  var_x :: "16 word"
  var_y :: "16 word"
  var_dx :: int
  var_dy :: int
  var_radius :: int

definition main_init :: main_vars where
  "main_init =
     \<lparr>var_h = main_h0, var_s = main_s0, var_v = main_v0,
      var_x = 20, var_y = 20, var_dx = 1, var_dy = 1, var_radius = 16\<rparr>"

text \<open>\<^verbatim>\<open>h += .5; if (h >= 360.0) h = 0.0;\<close> the sum is taken in \<^verbatim>\<open>double\<close>.\<close>

definition advance_hue :: "fp \<Rightarrow> fp" where
  "advance_hue h =
     (let h' = double_to_float (dadd h (double_const (1 / 2)))
      in if fp_ge h' (double_const 360) then double_to_float (double_const 0) else h')"

text \<open>
  \<^verbatim>\<open>x += dx\<close> on an \<^verbatim>\<open>unsigned short x\<close> and an \<^verbatim>\<open>int dx\<close>: the sum is taken in
  \<^verbatim>\<open>int\<close> and converted back, modulo \<open>2 ^ 16\<close>.
\<close>

definition ushort_plus_int :: "16 word \<Rightarrow> int \<Rightarrow> fault + 16 word" where
  "ushort_plus_int x d = then_do (int_result (uint x + d)) (\<lambda>n. Inr (word_of_int n))"

text \<open>
  \<^verbatim>\<open>if (x >= (limit-radius) || x <= radius) { dx = -dx; x += dx; }\<close>
  for \<open>limit\<close> 640 (on \<^verbatim>\<open>x\<close>) and 480 (on \<^verbatim>\<open>y\<close>).
\<close>

definition reflect :: "int \<Rightarrow> int \<Rightarrow> 16 word \<Rightarrow> int \<Rightarrow> fault + 16 word \<times> int" where
  "reflect limit radius x dx =
     then_do (int_result (limit - radius)) (\<lambda>hi.
       if hi \<le> uint x \<or> uint x \<le> radius
       then then_do (int_result (- dx)) (\<lambda>dx'.
            then_do (ushort_plus_int x dx') (\<lambda>x'. Inr (x', dx')))
       else Inr (x, dx))"

definition move_ball :: "main_vars \<Rightarrow> fault + main_vars" where
  "move_ball m =
     then_do (ushort_plus_int (var_x m) (var_dx m)) (\<lambda>x1.
     then_do (ushort_plus_int (var_y m) (var_dy m)) (\<lambda>y1.
     then_do (reflect 640 (var_radius m) x1 (var_dx m)) (\<lambda>(x2, dx2).
     then_do (reflect 480 (var_radius m) y1 (var_dy m)) (\<lambda>(y2, dy2).
       Inr (m\<lparr>var_x := x2, var_y := y2, var_dx := dx2, var_dy := dy2\<rparr>)))))"

text \<open>
  \<^verbatim>\<open>(unsigned short)(x) << 6\<close>: the shift is taken in \<^verbatim>\<open>int\<close>, and the initialiser
  converts it to the 16-bit field.
\<close>

definition shift_out :: "16 word \<Rightarrow> 16 word" where
  "shift_out x = word_of_int (push_bit 6 (uint x))"

definition position_of :: "16 word \<Rightarrow> 16 word \<Rightarrow> vga_ball_position_t" where
  "position_of x y = \<lparr>pos_x = shift_out x, pos_y = shift_out y\<rparr>"

definition color_of :: "int \<Rightarrow> int \<Rightarrow> int \<Rightarrow> vga_ball_color_t" where
  "color_of r g b = \<lparr>red = word_of_int r, green = word_of_int g, blue = word_of_int b\<rparr>"

text \<open>
  One iteration of \<^verbatim>\<open>for (;;)\<close>.  \<open>None\<close>: a loop of \<^verbatim>\<open>hsv_to_rgb\<close> does not end;
  \<open>Inl\<close>: the iteration runs into undefined behaviour.  \<^verbatim>\<open>usleep\<close> changes nothing here.
\<close>

definition loop_body ::
  "'d driver_fn \<Rightarrow> main_vars \<Rightarrow> 'd world \<Rightarrow> ((fault + main_vars) \<times> 'd world) option" where
  "loop_body drv m w =
     (case hsv_to_rgb (var_h m) (var_s m) (var_v m) of
        None \<Rightarrow> None
      | Some (Inl e) \<Rightarrow> Some (Inl e, w)
      | Some (Inr (r, g, b)) \<Rightarrow>
          let m1 = m\<lparr>var_h := advance_hue (var_h m)\<rparr>;
              w1 = set_background_color drv (color_of r g b) w;
              w2 = printf (Hsv_line (var_h m1) (var_s m1) (var_v m1) r g b) w1
          in case move_ball m1 of
               Inl e \<Rightarrow> Some (Inl e, w2)
             | Inr m2 \<Rightarrow>
                 let w3 = set_position drv (position_of (var_x m2) (var_y m2)) w2;
                     w4 = print_position drv w3
                 in Some (Inr m2, w4))"

text \<open>The first \<open>n\<close> iterations of the loop.\<close>

fun iterations ::
  "'d driver_fn \<Rightarrow> nat \<Rightarrow> main_vars \<Rightarrow> 'd world \<Rightarrow> ((fault + main_vars) \<times> 'd world) option" where
  "iterations drv 0 m w = Some (Inr m, w)"
| "iterations drv (Suc n) m w =
     (case loop_body drv m w of
        None \<Rightarrow> None
      | Some (Inl e, w') \<Rightarrow> Some (Inl e, w')
      | Some (Inr m', w') \<Rightarrow> iterations drv n m' w')"

section \<open>The animation loop of \<^verbatim>\<open>sw/hello.c\<close> (normalised space)\<close>

text \<open>
  \<^verbatim>\<open>float x = 0.2, y;\<close> a variable declared without an initialiser holds no value
  (\<open>None\<close>) until it is assigned, and reading it is undefined behaviour.
\<close>

record sw_vars =
  sw_h :: fp
  sw_s :: fp
  sw_v :: fp
  sw_x :: "fp option"
  sw_y :: "fp option"
  sw_dx :: fp
  sw_dy :: fp

definition sw_init :: sw_vars where
  "sw_init =
     \<lparr>sw_h = double_to_float (double_const 0), sw_s = double_to_float (double_const 1),
      sw_v = double_to_float (double_const 1),
      sw_x = Some (double_to_float (double_const (2 / 10))), sw_y = None,
      sw_dx = double_to_float (double_const (1 / 100)),
      sw_dy = double_to_float (double_const (1 / 100))\<rparr>"

definition read_var :: "'a option \<Rightarrow> fault + 'a" where
  "read_var a = (case a of None \<Rightarrow> Inl Uninitialised_read | Some b \<Rightarrow> Inr b)"

text \<open>\<^verbatim>\<open>if (x >= 1.0 || x <= 0.0) { dx = -dx; x += dx; }\<close>\<close>

definition sw_reflect :: "fp \<Rightarrow> fp \<Rightarrow> fp \<times> fp" where
  "sw_reflect x dx =
     (if fp_ge x (double_const 1) \<or> fp_le x (double_const 0)
      then (fadd x (fp_neg dx), fp_neg dx) else (x, dx))"

definition sw_move_ball :: "sw_vars \<Rightarrow> fault + sw_vars" where
  "sw_move_ball m =
     then_do (read_var (sw_x m)) (\<lambda>x0.
     then_do (read_var (sw_y m)) (\<lambda>y0.
       case sw_reflect (fadd x0 (sw_dx m)) (sw_dx m) of
         (x2, dx2) \<Rightarrow>
           (case sw_reflect (fadd y0 (sw_dy m)) (sw_dy m) of
              (y2, dy2) \<Rightarrow>
                Inr (m\<lparr>sw_x := Some x2, sw_y := Some y2, sw_dx := dx2, sw_dy := dy2\<rparr>))))"

text \<open>\<^verbatim>\<open>(unsigned short)(x * 170)\<close> and \<^verbatim>\<open>(unsigned short)(y * 120)\<close>\<close>

definition scale_out :: "int \<Rightarrow> fp \<Rightarrow> fault + 16 word" where
  "scale_out k x = float_to_ushort (fmul x (int_to_float k))"

definition sw_position_of :: "fp option \<Rightarrow> fp option \<Rightarrow> fault + vga_ball_position_t" where
  "sw_position_of x y =
     then_do (read_var x) (\<lambda>x'. then_do (scale_out 170 x') (\<lambda>px.
     then_do (read_var y) (\<lambda>y'. then_do (scale_out 120 y') (\<lambda>py.
       Inr \<lparr>pos_x = px, pos_y = py\<rparr>))))"

definition sw_loop_body ::
  "'d driver_fn \<Rightarrow> sw_vars \<Rightarrow> 'd world \<Rightarrow> ((fault + sw_vars) \<times> 'd world) option" where
  "sw_loop_body drv m w =
     (case hsv_to_rgb (sw_h m) (sw_s m) (sw_v m) of
        None \<Rightarrow> None
      | Some (Inl e) \<Rightarrow> Some (Inl e, w)
      | Some (Inr (r, g, b)) \<Rightarrow>
          let m1 = m\<lparr>sw_h := advance_hue (sw_h m)\<rparr>;
              w1 = set_background_color drv (color_of r g b) w;
              w2 = printf (Hsv_line (sw_h m1) (sw_s m1) (sw_v m1) r g b) w1
          in case sw_move_ball m1 of
               Inl e \<Rightarrow> Some (Inl e, w2)
             | Inr m2 \<Rightarrow>
                 (case sw_position_of (sw_x m2) (sw_y m2) of
                    Inl e \<Rightarrow> Some (Inl e, w2)
                  | Inr position \<Rightarrow>
                      let w3 = set_position drv position w2;
                          w4 = print_position drv w3
                      in Some (Inr m2, w4)))"

section \<open>Predicates and fixtures of the statements\<close>

text \<open>A \<^verbatim>\<open>float\<close> in the interval from 0 to 1, the range of saturation and value.\<close>

definition unit_fp :: "fp \<Rightarrow> bool" where
  "unit_fp a = (case a of Finite x \<Rightarrow> is_float x \<and> 0 \<le> x \<and> x \<le> 1 | _ \<Rightarrow> False)"

text \<open>
  The ball is strictly inside the frame reduced by the radius 16, moving by one unit
  on each axis.
\<close>

definition ball_inside :: "main_vars \<Rightarrow> bool" where
  "ball_inside m =
     (var_radius m = 16 \<and> \<bar>var_dx m\<bar> = 1 \<and> \<bar>var_dy m\<bar> = 1
      \<and> 16 < uint (var_x m) \<and> uint (var_x m) < 624
      \<and> 16 < uint (var_y m) \<and> uint (var_y m) < 464)"

text \<open>The hue is a multiple of one half below 360.\<close>

definition half_step_hue :: "fp \<Rightarrow> bool" where
  "half_step_hue a = (case a of Finite x \<Rightarrow> x \<in> (\<lambda>k. real k / 2) ` {..<720} | _ \<Rightarrow> False)"

definition main_inv :: "main_vars \<Rightarrow> bool" where
  "main_inv m =
     (half_step_hue (var_h m) \<and> var_s m = main_s0 \<and> var_v m = main_v0 \<and> ball_inside m)"

text \<open>
  Two drivers and a world to run the operations on: a driver that rejects every
  request, one that accepts every request and leaves the structure as it is, and
  the world before the first call.
\<close>

definition rejecting_driver :: "unit driver_fn" where
  "rejecting_driver d req arg = (- 1, arg, d)"

definition accepting_driver :: "unit driver_fn" where
  "accepting_driver d req arg = (0, arg, d)"

definition fresh_world :: "unit world" where
  "fresh_world = \<lparr>driver = (), ioctls = [], stderr = [], stdout = []\<rparr>"

text \<open>A decimal constant passed for a \<^verbatim>\<open>float\<close> parameter.\<close>

definition float_literal :: "real \<Rightarrow> fp" where
  "float_literal c = double_to_float (double_const c)"

text \<open>The largest difference between the channels of two colours.\<close>

definition channel_distance :: "int \<times> int \<times> int \<Rightarrow> int \<times> int \<times> int \<Rightarrow> int" where
  "channel_distance c d =
     (case c of (r, g, b) \<Rightarrow> case d of (r', g', b') \<Rightarrow>
        max \<bar>r - r'\<bar> (max \<bar>g - g'\<bar> \<bar>b - b'\<bar>))"

text \<open>The number of channels of a colour that are 0.\<close>

definition zero_channels :: "int \<times> int \<times> int \<Rightarrow> nat" where
  "zero_channels c = (case c of (r, g, b) \<Rightarrow> length (filter (\<lambda>x. x = 0) [r, g, b]))"

text \<open>The primary colours red, green and blue, numbered 0, 1 and 2.\<close>

definition primary :: "int \<Rightarrow> int \<times> int \<times> int" where
  "primary n = (if n = 0 then (255, 0, 0) else if n = 1 then (0, 255, 0) else (0, 0, 255))"

section \<open>Evaluation of the floating-point model\<close>

lemma bitlen_One: "bitlen 1 = 1"
  by (simp add: bitlen_alt_def)

lemma bitlen_Bit0: "bitlen (numeral (Num.Bit0 n)) = bitlen (numeral n) + 1"
  by (subst compute_bitlen) simp

lemma bitlen_Bit1: "bitlen (numeral (Num.Bit1 n)) = bitlen (numeral n) + 1"
  by (subst compute_bitlen) simp

lemmas fp_eval =
  float_round_def double_round_def round_to_def nearest_def quantum_def ilog2_def
  round_half_even_def Let_def bitlen_One bitlen_Bit0 bitlen_Bit1 int_to_float_def double_const_def

lemmas conv_eval =
  float_to_int_def float_to_integer_def trunc_def INT_MIN_def INT_MAX_def then_do_def

lemma int_to_float_0: "int_to_float 0 = Finite 0"
  by (simp add: fp_eval)

lemma int_to_float_1: "int_to_float 1 = Finite 1"
  by (simp add: fp_eval)

lemma int_to_float_60: "int_to_float 60 = Finite 60"
  by (simp add: fp_eval)

lemma int_to_float_255: "int_to_float 255 = Finite 255"
  by (simp add: fp_eval)

lemma int_to_float_360: "int_to_float 360 = Finite 360"
  by (simp add: fp_eval)

lemma main_h0_eq: "main_h0 = Finite 0"
  by (simp add: main_h0_def fp_eval)

lemma main_s0_eq: "main_s0 = Finite 1"
  by (simp add: main_s0_def fp_eval)

lemma main_v0_eq: "main_v0 = Finite (5033165 / 16777216)"
  by (simp add: main_v0_def fp_eval)

lemma normalise_hue_0: "normalise_hue (Finite 0) = Some (Finite 0)"
  by (simp add: normalise_hue_def while_ge_360.simps while_lt_0.simps fp_ge_def
      int_to_float_0 int_to_float_360)

section \<open>Rounding: exponent, monotonicity, exactness\<close>

lemma two_powi_pos: "0 < (2::real) powi e" by simp

lemma two_powi_less_iff: "(2::real) powi a < 2 powi b \<longleftrightarrow> a < b"
proof
  assume "(2::real) powi a < 2 powi b"
  show "a < b"
  proof (rule ccontr)
    assume "\<not> a < b"
    then have "b \<le> a" by simp
    then have "(2::real) powi b \<le> 2 powi a" by (intro power_int_increasing) auto
    with \<open>(2::real) powi a < 2 powi b\<close> show False by simp
  qed
next
  assume "a < b"
  then show "(2::real) powi a < 2 powi b" by (intro power_int_strict_increasing) auto
qed

lemma two_powi_le_iff: "(2::real) powi a \<le> 2 powi b \<longleftrightarrow> a \<le> b"
  using two_powi_less_iff [of b a] by (auto simp: not_less [symmetric])

lemma two_powi_Suc: "(2::real) powi (e + 1) = 2 * 2 powi e"
  by (simp add: power_int_add)

lemma ilog2_bounds:
  assumes "0 < x"
  shows "2 powi ilog2 x \<le> x" and "x < 2 powi (ilog2 x + 1)"
proof -
  have "2 powi ilog2 x \<le> x \<and> x < 2 powi (ilog2 x + 1)"
  proof (cases "1 \<le> x")
    case True
    define n where "n = \<lfloor>x\<rfloor>"
    have n: "0 < n" using True by (simp add: n_def)
    have e: "ilog2 x = bitlen n - 1" using True by (simp add: ilog2_def n_def)
    have b1: "1 \<le> bitlen n" using n bitlen_eq_zero_iff [of n] bitlen_nonneg [of n] by linarith
    from bitlen_bounds [OF n] have lo: "2 ^ nat (bitlen n - 1) \<le> n" and hi: "n < 2 ^ nat (bitlen n)"
      by auto
    have "(2::real) powi (bitlen n - 1) = 2 ^ nat (bitlen n - 1)"
      using b1 by (simp add: power_int_def)
    also have "\<dots> \<le> of_int n" using lo by (metis of_int_le_iff of_int_numeral of_int_power)
    also have "\<dots> \<le> x" by (simp add: n_def)
    finally have A: "2 powi ilog2 x \<le> x" by (simp add: e)
    have "n + 1 \<le> 2 ^ nat (bitlen n)" using hi by simp
    then have "real_of_int (n + 1) \<le> 2 ^ nat (bitlen n)"
      by (metis of_int_le_iff of_int_numeral of_int_power)
    moreover have "x < real_of_int (n + 1)" unfolding n_def by linarith
    moreover have "(2::real) powi (bitlen n - 1 + 1) = 2 ^ nat (bitlen n)"
      using b1 by (simp add: power_int_def)
    ultimately have "x < 2 powi (ilog2 x + 1)" by (simp add: e)
    with A show ?thesis by simp
  next
    case False
    then have x1: "x < 1" by simp
    define c where "c = \<lceil>1 / x\<rceil>"
    define k where "k = bitlen (c - 1)"
    have y1: "1 < 1 / x" using assms x1 by simp
    have c2: "2 \<le> c" using y1 unfolding c_def by linarith
    then have cpos: "0 < c - 1" by simp
    have e: "ilog2 x = - k" using False by (simp add: ilog2_def c_def k_def)
    have k1: "1 \<le> k" using cpos bitlen_eq_zero_iff [of "c - 1"] bitlen_nonneg [of "c - 1"]
      unfolding k_def by linarith
    from bitlen_bounds [OF cpos] have lo: "2 ^ nat (k - 1) \<le> c - 1" and hi: "c - 1 < 2 ^ nat k"
      by (auto simp: k_def)
    have "c \<le> 2 ^ nat k" using hi by simp
    then have "real_of_int c \<le> 2 ^ nat k" by (metis of_int_le_iff of_int_numeral of_int_power)
    moreover have "1 / x \<le> real_of_int c" unfolding c_def by linarith
    ultimately have "1 / x \<le> 2 ^ nat k" by linarith
    then have "1 \<le> 2 ^ nat k * x" using assms by (simp add: field_simps)
    then have "1 / 2 ^ nat k \<le> x" by (simp add: field_simps)
    moreover have "(2::real) powi (- k) = 1 / 2 ^ nat k"
      using k1 by (simp add: power_int_def field_simps)
    ultimately have A: "2 powi ilog2 x \<le> x" by (simp add: e)
    have "real_of_int (c - 1) < 1 / x" unfolding c_def by linarith
    moreover have "(2::real) ^ nat (k - 1) \<le> real_of_int (c - 1)"
      using lo by (metis of_int_le_iff of_int_numeral of_int_power)
    ultimately have "(2::real) ^ nat (k - 1) < 1 / x" by linarith
    then have "x * 2 ^ nat (k - 1) < 1" using assms by (simp add: field_simps)
    then have "x < 1 / 2 ^ nat (k - 1)" by (simp add: field_simps)
    moreover have "(2::real) powi (- k + 1) = 1 / 2 ^ nat (k - 1)"
    proof (cases "k = 1")
      case True then show ?thesis by simp
    next
      case False
      with k1 have "- k + 1 < 0" by simp
      then have "(2::real) powi (- k + 1) = inverse 2 ^ nat (k - 1)"
        by (simp add: power_int_def)
      then show ?thesis by (simp add: field_simps)
    qed
    ultimately have "x < 2 powi (ilog2 x + 1)" by (simp add: e)
    with A show ?thesis by simp
  qed
  then show "2 powi ilog2 x \<le> x" and "x < 2 powi (ilog2 x + 1)" by auto
qed

lemma ilog2_unique:
  assumes "2 powi e \<le> x" and "x < 2 powi (e + 1)"
  shows "ilog2 x = e"
proof -
  have pos: "0 < x" using assms(1) two_powi_pos [of e] by linarith
  from ilog2_bounds [OF pos] have a: "2 powi ilog2 x \<le> x" and b: "x < 2 powi (ilog2 x + 1)" .
  have "(2::real) powi e < 2 powi (ilog2 x + 1)" using assms(1) b by linarith
  then have "e < ilog2 x + 1" by (simp add: two_powi_less_iff)
  moreover have "(2::real) powi ilog2 x < 2 powi (e + 1)" using a assms(2) by linarith
  then have "ilog2 x < e + 1" by (simp add: two_powi_less_iff)
  ultimately show ?thesis by simp
qed

lemma ilog2_mono:
  assumes "0 < x" and "x \<le> y"
  shows "ilog2 x \<le> ilog2 y"
proof -
  have "0 < y" using assms by simp
  have "(2::real) powi ilog2 x \<le> x" using ilog2_bounds(1) [OF assms(1)] .
  also have "\<dots> \<le> y" by fact
  also have "\<dots> < 2 powi (ilog2 y + 1)" using ilog2_bounds(2) [OF \<open>0 < y\<close>] .
  finally have "ilog2 x < ilog2 y + 1" by (simp add: two_powi_less_iff)
  then show ?thesis by simp
qed

lemma round_half_even_of_int: "round_half_even (of_int n) = n"
  by (simp add: round_half_even_def)

lemma round_half_even_range:
  "round_half_even x = \<lfloor>x\<rfloor> \<or> round_half_even x = \<lfloor>x\<rfloor> + 1"
  by (simp add: round_half_even_def Let_def)

lemma round_half_even_mono:
  assumes "x \<le> y"
  shows "round_half_even x \<le> round_half_even y"
proof (cases "\<lfloor>x\<rfloor> = \<lfloor>y\<rfloor>")
  case True
  then show ?thesis using assms by (auto simp: round_half_even_def Let_def)
next
  case False
  then have "\<lfloor>x\<rfloor> < \<lfloor>y\<rfloor>" using floor_mono [OF assms] by simp
  then show ?thesis
    using round_half_even_range [of x] round_half_even_range [of y] by linarith
qed

lemma round_half_even_le: "x \<le> of_int n \<Longrightarrow> round_half_even x \<le> n"
  using round_half_even_mono [of x "of_int n"] by (simp add: round_half_even_of_int)

lemma round_half_even_ge: "of_int n \<le> x \<Longrightarrow> n \<le> round_half_even x"
  using round_half_even_mono [of "of_int n" x] by (simp add: round_half_even_of_int)

lemma round_half_even_minus: "round_half_even (- x) = - round_half_even x"
proof (cases "x = of_int \<lfloor>x\<rfloor>")
  case True
  then obtain n where "x = of_int n" ..
  then have "- x = of_int (- n)" by simp
  then show ?thesis unfolding \<open>x = of_int n\<close> 
    by (metis round_half_even_of_int)
next
  case False
  then have f: "\<lfloor>- x\<rfloor> = - \<lfloor>x\<rfloor> - 1"
    by (metis ceiling_altdef ceiling_def diff_minus_eq_add minus_diff_eq
        of_int_floor_cancel minus_add_cancel add.commute uminus_add_conv_diff)
  have lt: "of_int \<lfloor>x\<rfloor> < x" using False by (metis of_int_floor_le order_less_le)
  have ev: "even (- \<lfloor>x\<rfloor> - 1) \<longleftrightarrow> \<not> even \<lfloor>x\<rfloor>" by simp
  show ?thesis
    using lt ev unfolding round_half_even_def Let_def f
    by (auto simp: algebra_simps)
qed

lemma quantum_pos: "0 < quantum p emin x"
  by (simp add: quantum_def)

lemma quantum_minus: "quantum p emin (- x) = quantum p emin x"
  by (simp add: quantum_def)

lemma nearest_0: "nearest p emin 0 = 0"
  by (simp add: nearest_def round_half_even_def)

lemma nearest_minus: "nearest p emin (- x) = - nearest p emin x"
  by (simp add: nearest_def quantum_minus round_half_even_minus)

lemma quantum_times_p:
  "quantum p emin x * 2 ^ p = 2 powi (max (ilog2 \<bar>x\<bar>) emin + 1)"
proof -
  have "(2::real) powi (max (ilog2 \<bar>x\<bar>) emin - int p + 1 + int p)
        = 2 powi (max (ilog2 \<bar>x\<bar>) emin - int p + 1) * 2 powi (int p)"
    by (rule power_int_add) simp
  then show ?thesis by (simp add: quantum_def)
qed

lemma quantum_times_p1:
  assumes "1 \<le> p"
  shows "quantum p emin x * 2 ^ (p - 1) = 2 powi (max (ilog2 \<bar>x\<bar>) emin)"
proof -
  define E where "E = max (ilog2 \<bar>x\<bar>) emin"
  have "(2::real) powi (E - int p + 1 + int (p - 1))
        = 2 powi (E - int p + 1) * 2 powi (int (p - 1))"
    by (rule power_int_add) simp
  moreover have "E - int p + 1 + int (p - 1) = E"
    using assms by simp
  moreover have "(2::real) powi (int (p - 1)) = 2 ^ (p - 1)"
    by (rule power_int_of_nat)
  ultimately have "2 powi (E - int p + 1) * 2 ^ (p - 1) = (2::real) powi E"
    by (simp only:)
  then show ?thesis by (simp only: quantum_def E_def)
qed

lemma nearest_nonneg:
  assumes "0 \<le> x"
  shows "0 \<le> nearest p emin x"
proof -
  have "of_int 0 \<le> x / quantum p emin x" using assms quantum_pos [of p emin x] by simp
  then have "0 \<le> round_half_even (x / quantum p emin x)" by (rule round_half_even_ge)
  then show ?thesis using quantum_pos [of p emin x] by (simp add: nearest_def)
qed

lemma nearest_upper:
  assumes "0 < x"
  shows "nearest p emin x \<le> 2 powi (max (ilog2 x) emin + 1)"
proof -
  let ?q = "quantum p emin x"
  have q: "0 < ?q" by (rule quantum_pos)
  have "x < 2 powi (ilog2 x + 1)" using assms by (rule ilog2_bounds)
  also have "\<dots> \<le> 2 powi (max (ilog2 x) emin + 1)" by (simp add: two_powi_le_iff)
  also have "\<dots> = ?q * 2 ^ p" using quantum_times_p [of p emin x] assms by simp
  finally have "x / ?q < 2 ^ p" using q by (simp add: field_simps)
  then have "x / ?q \<le> of_int (2 ^ p)" by simp
  then have "round_half_even (x / ?q) \<le> 2 ^ p" by (rule round_half_even_le)
  then have "real_of_int (round_half_even (x / ?q)) \<le> 2 ^ p"
    by (metis of_int_le_iff of_int_numeral of_int_power)
  then have "real_of_int (round_half_even (x / ?q)) * ?q \<le> 2 ^ p * ?q"
    using q by (intro mult_right_mono) auto
  then show ?thesis using quantum_times_p [of p emin x] assms
    by (simp add: nearest_def mult.commute)
qed

lemma nearest_lower:
  assumes "1 \<le> p" and "0 < x" and "emin \<le> ilog2 x"
  shows "2 powi ilog2 x \<le> nearest p emin x"
proof -
  let ?q = "quantum p emin x"
  have q: "0 < ?q" by (rule quantum_pos)
  have E: "max (ilog2 \<bar>x\<bar>) emin = ilog2 x" using assms by simp
  have eq: "?q * 2 ^ (p - 1) = 2 powi ilog2 x"
    using quantum_times_p1 [OF assms(1), of emin x] E by simp
  have "2 powi ilog2 x \<le> x" using assms(2) by (rule ilog2_bounds)
  then have "2 ^ (p - 1) \<le> x / ?q" using q eq by (simp add: field_simps)
  then have "of_int (2 ^ (p - 1)) \<le> x / ?q" by simp
  then have "2 ^ (p - 1) \<le> round_half_even (x / ?q)" by (rule round_half_even_ge)
  then have "2 ^ (p - 1) \<le> real_of_int (round_half_even (x / ?q))"
    by (metis of_int_le_iff of_int_numeral of_int_power)
  then have "2 ^ (p - 1) * ?q \<le> real_of_int (round_half_even (x / ?q)) * ?q"
    using q by (intro mult_right_mono) auto
  then show ?thesis using eq by (simp add: nearest_def mult.commute)
qed

lemma nearest_mono_pos:
  assumes "1 \<le> p" and "0 < x" and "x \<le> y"
  shows "nearest p emin x \<le> nearest p emin y"
proof -
  have ypos: "0 < y" using assms by simp
  have le: "ilog2 x \<le> ilog2 y" using assms(2,3) by (rule ilog2_mono)
  show ?thesis
  proof (cases "max (ilog2 x) emin = max (ilog2 y) emin")
    case True
    then have qq: "quantum p emin x = quantum p emin y"
      using assms(2) ypos by (simp add: quantum_def)
    have "x / quantum p emin y \<le> y / quantum p emin y"
      using assms(3) quantum_pos [of p emin y] by (simp add: divide_right_mono)
    then have "round_half_even (x / quantum p emin y) \<le> round_half_even (y / quantum p emin y)"
      by (rule round_half_even_mono)
    then have "real_of_int (round_half_even (x / quantum p emin y)) * quantum p emin y
        \<le> real_of_int (round_half_even (y / quantum p emin y)) * quantum p emin y"
      using quantum_pos [of p emin y] by (intro mult_right_mono) auto
    then show ?thesis by (simp add: nearest_def qq)
  next
    case False
    then have lt: "max (ilog2 x) emin < ilog2 y" and ge: "emin \<le> ilog2 y"
      using le by auto
    have "nearest p emin x \<le> 2 powi (max (ilog2 x) emin + 1)"
      using assms(2) by (rule nearest_upper)
    also have "\<dots> \<le> 2 powi ilog2 y"
    proof -
      have "max (ilog2 x) emin + 1 \<le> ilog2 y" using lt by linarith
      then show ?thesis by (simp only: two_powi_le_iff)
    qed
    also have "\<dots> \<le> nearest p emin y" using assms(1) ypos ge by (rule nearest_lower)
    finally show ?thesis .
  qed
qed

lemma nearest_mono:
  assumes "1 \<le> p" and "x \<le> y"
  shows "nearest p emin x \<le> nearest p emin y"
proof -
  consider "0 < x" | "x \<le> 0" "0 \<le> y" | "y < 0" by linarith
  then show ?thesis
  proof cases
    case 1
    then show ?thesis using assms by (intro nearest_mono_pos)
  next
    case 2
    have "nearest p emin x = - nearest p emin (- x)" by (simp add: nearest_minus)
    moreover have "0 \<le> nearest p emin (- x)" using 2 by (intro nearest_nonneg) simp
    moreover have "0 \<le> nearest p emin y" using 2 by (intro nearest_nonneg)
    ultimately show ?thesis by linarith
  next
    case 3
    have "nearest p emin (- y) \<le> nearest p emin (- x)"
      using assms 3 by (intro nearest_mono_pos) auto
    then show ?thesis by (simp add: nearest_minus)
  qed
qed

lemma nearest_exact:
  assumes "\<bar>m\<bar> < 2 ^ p" and "emin - int p + 1 \<le> j"
  shows "nearest p emin (of_int m * 2 powi j) = of_int m * 2 powi j"
proof (cases "m = 0")
  case True
  then show ?thesis by (simp add: nearest_0)
next
  case False
  define x :: real where "x = of_int m * 2 powi j"
  let ?E = "max (ilog2 \<bar>x\<bar>) emin"
  have ax: "\<bar>x\<bar> = of_int \<bar>m\<bar> * 2 powi j" by (simp add: x_def abs_mult)
  have xpos: "0 < \<bar>x\<bar>" using False by (simp add: x_def)
  have "real_of_int \<bar>m\<bar> < 2 ^ p" using assms(1)
    by (metis of_int_less_iff of_int_numeral of_int_power)
  then have "\<bar>x\<bar> < 2 ^ p * 2 powi j" unfolding ax by (intro mult_strict_right_mono) auto
  also have "\<dots> = 2 powi (int p + j)" by (simp add: power_int_add)
  finally have "2 powi ilog2 \<bar>x\<bar> < (2::real) powi (int p + j)"
    using ilog2_bounds(1) [OF xpos] by linarith
  then have "ilog2 \<bar>x\<bar> < int p + j" by (simp add: two_powi_less_iff)
  then have d: "0 \<le> j - (?E - int p + 1)" using assms(2) by auto
  define d where "d = nat (j - (?E - int p + 1))"
  have "(2::real) powi j = 2 powi ((?E - int p + 1) + int d)" using d by (simp add: d_def)
  also have "\<dots> = quantum p emin x * 2 ^ d" by (simp add: power_int_add quantum_def)
  finally have pj: "(2::real) powi j = quantum p emin x * 2 ^ d" .
  define Q where "Q = quantum p emin x"
  have Qpos: "0 < Q" unfolding Q_def by (rule quantum_pos)
  have pjQ: "(2::real) powi j = Q * 2 ^ d" using pj by (simp only: Q_def)
  have "x = of_int m * (Q * 2 ^ d)" by (simp only: x_def pjQ)
  then have xQ: "x = of_int (m * 2 ^ d) * Q" by simp
  then have "x / Q = of_int (m * 2 ^ d)" using Qpos by simp
  then have "round_half_even (x / Q) = m * 2 ^ d"
    by (simp only: round_half_even_of_int)
  then have "nearest p emin x = of_int (m * 2 ^ d) * Q"
    by (simp only: nearest_def Q_def)
  also have "\<dots> = x" using xQ by simp
  finally show ?thesis by (simp only: x_def)
qed

lemma nearest_idem:
  assumes "1 \<le> p"
  shows "nearest p emin (nearest p emin x) = nearest p emin x"
proof -
  have pos: "nearest p emin (nearest p emin x) = nearest p emin x" if "0 < x" for x
  proof -
    let ?q = "quantum p emin x"
    define m where "m = round_half_even (x / ?q)"
    define j where "j = max (ilog2 \<bar>x\<bar>) emin - int p + 1"
    have q: "?q = 2 powi j" by (simp add: quantum_def j_def)
    have j: "emin - int p + 1 \<le> j" by (simp add: j_def)
    have n: "nearest p emin x = of_int m * 2 powi j" by (simp add: nearest_def m_def q)
    have "0 \<le> nearest p emin x" using that by (intro nearest_nonneg) simp
    then have m0: "0 \<le> m" unfolding n
      using two_powi_pos [of j] by (simp add: zero_le_mult_iff not_le [symmetric])
    have "nearest p emin x \<le> 2 powi (max (ilog2 x) emin + 1)" using that by (rule nearest_upper)
    also have "\<dots> = 2 powi j * 2 ^ p" using quantum_times_p [of p emin x] that by (simp add: q)
    finally have "real_of_int m \<le> 2 ^ p" unfolding n by (simp add: mult.commute)
    then have mp: "m \<le> 2 ^ p" by (metis of_int_le_iff of_int_numeral of_int_power)
    show ?thesis
    proof (cases "m = 2 ^ p")
      case True
      have "(2::real) ^ p = 2 ^ (p - 1) * 2" using assms by (cases p) auto
      then have "nearest p emin x = of_int (2 ^ (p - 1)) * 2 powi (j + 1)"
        unfolding n True by (simp add: power_int_add)
      moreover have "nearest p emin (of_int (2 ^ (p - 1)) * 2 powi (j + 1))
          = of_int (2 ^ (p - 1)) * 2 powi (j + 1)"
        using assms j by (intro nearest_exact) auto
      ultimately show ?thesis by simp
    next
      case False
      then have "\<bar>m\<bar> < 2 ^ p" using m0 mp by simp
      then show ?thesis unfolding n using j by (rule nearest_exact)
    qed
  qed
  consider "0 < x" | "x = 0" | "x < 0" by linarith
  then show ?thesis
  proof cases
    case 1 then show ?thesis by (rule pos)
  next
    case 2 then show ?thesis by (simp add: nearest_0)
  next
    case 3
    then have "nearest p emin (nearest p emin (- x)) = nearest p emin (- x)"
      by (intro pos) simp
    then show ?thesis by (simp add: nearest_minus)
  qed
qed

subsection \<open>Rounding to binary32 and binary64\<close>

lemma float_round_eq:
  "float_round x =
     (if 2 ^ 128 \<le> \<bar>near32 x\<bar> then (if 0 < x then PlusInf else MinusInf)
      else Finite (near32 x))"
  by (simp add: float_round_def round_to_def nearest_0)

lemma is_float_iff: "is_float x \<longleftrightarrow> near32 x = x \<and> \<bar>x\<bar> < 2 ^ 128"
  by (auto simp: is_float_def float_round_eq)

lemma float_round_Finite:
  assumes "float_round x = Finite y"
  shows "y = near32 x" and "is_float y"
proof -
  from assms have small: "\<not> 2 ^ 128 \<le> \<bar>near32 x\<bar>" and y: "y = near32 x"
    by (auto simp: float_round_eq split: if_splits)
  show "y = near32 x" by fact
  have "near32 y = y" unfolding y by (rule nearest_idem) simp
  then show "is_float y" using small y by (simp add: is_float_iff)
qed

lemma float_round_between:
  assumes "is_float lo" and "is_float hi" and "lo \<le> x" and "x \<le> hi"
  shows "\<exists>y. float_round x = Finite y \<and> is_float y \<and> lo \<le> y \<and> y \<le> hi"
proof -
  have "near32 lo \<le> near32 x" using assms(3) by (intro nearest_mono) simp
  then have lo: "lo \<le> near32 x" using assms(1) by (simp add: is_float_iff)
  have "near32 x \<le> near32 hi" using assms(4) by (intro nearest_mono) simp
  then have hi: "near32 x \<le> hi" using assms(2) by (simp add: is_float_iff)
  have "\<bar>near32 x\<bar> < 2 ^ 128"
    using lo hi assms(1,2) unfolding is_float_iff by linarith
  then have fr: "float_round x = Finite (near32 x)" by (simp add: float_round_eq)
  then have "is_float (near32 x)" by (rule float_round_Finite)
  with fr lo hi show ?thesis by blast
qed

lemma is_float_minus: "is_float (- x) \<longleftrightarrow> is_float x"
  by (auto simp: is_float_iff nearest_minus)

lemma is_float_dyadic:
  assumes "\<bar>m\<bar> < 2 ^ 24" and "- 149 \<le> j" and "j \<le> 104"
  shows "is_float (of_int m * 2 powi j)"
proof -
  have "near32 (of_int m * 2 powi j) = of_int m * 2 powi j"
    using assms by (intro nearest_exact) auto
  moreover have "\<bar>real_of_int m * 2 powi j\<bar> < 2 ^ 128"
  proof -
    have "real_of_int \<bar>m\<bar> < 2 ^ 24" using assms(1)
      by (metis of_int_less_iff of_int_numeral of_int_power)
    moreover have "(2::real) powi j \<le> 2 powi 104" using assms(3) by (simp only: two_powi_le_iff)
    ultimately have "real_of_int \<bar>m\<bar> * 2 powi j < 2 ^ 24 * 2 powi 104"
      by (intro mult_less_le_imp_less) auto
    then show ?thesis by (simp add: abs_mult)
  qed
  ultimately show ?thesis by (simp add: is_float_iff)
qed

lemma is_float_half:
  assumes "\<bar>n\<bar> < 2 ^ 24"
  shows "is_float (of_int n / 2)"
  using is_float_dyadic [OF assms, of "- 1"] by simp

lemma is_float_of_int:
  assumes "\<bar>n\<bar> \<le> 2 ^ 24"
  shows "is_float (of_int n)"
proof (cases "\<bar>n\<bar> = 2 ^ 24")
  case True
  then have "n = 2 ^ 24 \<or> n = - (2 ^ 24)" by linarith
  moreover have "is_float (of_int (2 ^ 23) * 2 powi 1)" by (rule is_float_dyadic) auto
  ultimately show ?thesis using is_float_minus [of "2 ^ 24"] by auto
next
  case False
  then have "\<bar>n\<bar> < 2 ^ 24" using assms by simp
  then show ?thesis using is_float_dyadic [of n 0] by simp
qed

lemma round_to_exact:
  assumes "nearest p emin x = x" and "\<bar>x\<bar> < 2 powi (emax + 1)"
  shows "round_to p emin emax x = Finite x"
  using assms by (simp add: round_to_def)

lemma double_round_half:
  assumes "\<bar>n\<bar> < 2 ^ 53"
  shows "double_round (of_int n / 2) = Finite (of_int n / 2)"
proof -
  have "nearest 53 (- 1022) (of_int n * 2 powi (- 1)) = of_int n * 2 powi (- 1)"
    using assms by (intro nearest_exact) auto
  then have nx: "nearest 53 (- 1022) (of_int n / 2) = of_int n / 2" by simp
  have "real_of_int \<bar>n\<bar> < 2 ^ 53" using assms
    by (metis of_int_less_iff of_int_numeral of_int_power)
  then have "\<bar>real_of_int n / 2\<bar> < 2 ^ 53" by simp
  moreover have "(2::real) ^ 53 \<le> 2 powi (1023 + 1)" by simp
  ultimately have small: "\<bar>real_of_int n / 2\<bar> < 2 powi (1023 + 1)"
    by linarith
  show ?thesis
    unfolding double_round_def using nx small by (rule round_to_exact)
qed

section \<open>Constants and single steps of the normalising loops\<close>

lemma is_float_0: "is_float 0"
  using is_float_of_int [of 0] by simp

lemma is_float_1: "is_float 1"
  using is_float_of_int [of 1] by simp

lemma is_float_360: "is_float 360"
  using is_float_of_int [of 360] by simp

lemma is_float_6: "is_float 6"
  using is_float_of_int [of 6] by simp

lemma is_float_255: "is_float 255"
  using is_float_of_int [of 255] by simp

lemma int_to_float_small: "\<bar>n\<bar> \<le> 2 ^ 24 \<Longrightarrow> int_to_float n = Finite (of_int n)"
  using is_float_of_int [of n] by (simp add: int_to_float_def is_float_def)

lemma fsub_Finite: "fsub (Finite a) (Finite b) = float_round (a - b)"
  by (simp add: fp_sub_def)

lemma while_ge_360_below:
  "h < 360 \<Longrightarrow> while_ge_360 (Finite h) = Some (Finite h)"
  by (subst while_ge_360.simps) (simp add: fp_ge_def int_to_float_360)

lemma while_ge_360_step:
  "360 \<le> h \<Longrightarrow> while_ge_360 (Finite h) = while_ge_360 (float_round (h - 360))"
  by (subst while_ge_360.simps) (simp add: fp_ge_def int_to_float_360 fsub_Finite)

lemma while_lt_0_above:
  "0 \<le> h \<Longrightarrow> while_lt_0 (Finite h) = Some (Finite h)"
  by (subst while_lt_0.simps) (simp add: int_to_float_0)

lemma while_lt_0_step:
  "h < 0 \<Longrightarrow> while_lt_0 (Finite h) = while_lt_0 (float_round (h + 360))"
  by (subst while_lt_0.simps) (simp add: int_to_float_0 int_to_float_360)

lemma normalise_hue_in_range:
  assumes "is_float h" and "0 \<le> h" and "h < 360"
  shows "normalise_hue (Finite h) = Some (Finite h)"
  using assms by (simp add: normalise_hue_def while_ge_360_below while_lt_0_above)

section \<open>The grid of the \<^verbatim>\<open>float\<close> values\<close>

text \<open>The values of type \<^verbatim>\<open>float\<close> are the 24-bit multiples of the powers of 2 from \<open>- 149\<close> on.\<close>

lemma is_float_grid:
  assumes "is_float x" and "2 powi e \<le> \<bar>x\<bar>" and "\<bar>x\<bar> < 2 powi (e + 1)" and "- 126 \<le> e"
  shows "\<exists>m. x = of_int m * 2 powi (e - 23)"
proof -
  have "ilog2 \<bar>x\<bar> = e" using assms(2,3) by (rule ilog2_unique)
  then have q: "quantum 24 (- 126) x = 2 powi (e - 23)"
    using assms(4) by (simp add: quantum_def)
  have "near32 x = x" using assms(1) by (simp add: is_float_iff)
  then have "x = of_int (round_half_even (x / 2 powi (e - 23))) * 2 powi (e - 23)"
    by (simp add: nearest_def q)
  then show ?thesis ..
qed

lemma is_float_dyadic_iff:
  "is_float x \<longleftrightarrow>
     (\<exists>m j. \<bar>m\<bar> < 2 ^ 24 \<and> - 149 \<le> j \<and> j \<le> 104 \<and> x = of_int m * 2 powi j)"
proof
  assume "\<exists>m j. \<bar>m\<bar> < 2 ^ 24 \<and> - 149 \<le> j \<and> j \<le> 104 \<and> x = of_int m * 2 powi j"
  then show "is_float x" using is_float_dyadic by blast
next
  assume fl: "is_float x"
  show "\<exists>m j. \<bar>m\<bar> < 2 ^ 24 \<and> - 149 \<le> j \<and> j \<le> 104 \<and> x = of_int m * 2 powi j"
  proof (cases "x = 0")
    case True
    then have "\<bar>0::int\<bar> < 2 ^ 24 \<and> - 149 \<le> (0::int) \<and> (0::int) \<le> 104 \<and> x = of_int 0 * 2 powi 0"
      by simp
    then show ?thesis by blast
  next
    case False
    then have pos: "0 < \<bar>x\<bar>" by simp
    define E where "E = max (ilog2 \<bar>x\<bar>) (- 126)"
    define j where "j = E - 23"
    define m where "m = round_half_even (x / 2 powi j)"
    have q: "quantum 24 (- 126) x = 2 powi j" by (simp add: quantum_def E_def j_def)
    have "near32 x = x" using fl by (simp add: is_float_iff)
    then have x: "x = of_int m * 2 powi j" by (simp add: nearest_def q m_def)
    have small: "\<bar>x\<bar> < 2 ^ 128" using fl by (simp add: is_float_iff)
    have "\<bar>x\<bar> < 2 powi (ilog2 \<bar>x\<bar> + 1)" using pos by (rule ilog2_bounds)
    also have "\<dots> \<le> 2 powi (E + 1)" by (simp add: two_powi_le_iff E_def)
    also have "\<dots> = 2 ^ 24 * 2 powi j" by (simp add: j_def power_int_add power_int_diff)
    finally have "\<bar>real_of_int m\<bar> * 2 powi j < 2 ^ 24 * 2 powi j"
      by (simp add: x abs_mult)
    then have "\<bar>real_of_int m\<bar> < 2 ^ 24" by simp
    then have m: "\<bar>m\<bar> < 2 ^ 24"
      by (metis of_int_abs of_int_less_iff of_int_numeral of_int_power)
    have "(2::real) powi ilog2 \<bar>x\<bar> < 2 powi 128"
      using ilog2_bounds(1) [OF pos] small by simp
    then have "ilog2 \<bar>x\<bar> < 128" by (simp only: two_powi_less_iff)
    then have "j \<le> 104" "- 149 \<le> j" by (simp_all add: j_def E_def)
    with m x show ?thesis by blast
  qed
qed

text \<open>Below a value of the grid of its binade, a \<^verbatim>\<open>float\<close> is at least one step below.\<close>

lemma is_float_below:
  assumes "is_float h" and "2 powi e \<le> h" and "h < of_int M * 2 powi (e - 23)"
    and "real_of_int M * 2 powi (e - 23) \<le> 2 powi (e + 1)" and "- 126 \<le> e"
  shows "h \<le> of_int (M - 1) * 2 powi (e - 23)"
proof -
  have pos: "0 < h" using assms(2) two_powi_pos [of e] by linarith
  then have a: "\<bar>h\<bar> = h" by simp
  have "h < 2 powi (e + 1)" using assms(3,4) by linarith
  with assms(1,2,5) a obtain m where m: "h = of_int m * 2 powi (e - 23)"
    using is_float_grid [of h e] by auto
  have "real_of_int m * 2 powi (e - 23) < real_of_int M * 2 powi (e - 23)"
    using assms(3) m by simp
  then have "real_of_int m < real_of_int M" by simp
  then have "m \<le> M - 1" by simp
  then have "real_of_int m \<le> real_of_int (M - 1)" by (simp only: of_int_le_iff)
  then have "real_of_int m * 2 powi (e - 23) \<le> real_of_int (M - 1) * 2 powi (e - 23)"
    by (intro mult_right_mono) auto
  then show ?thesis using m by simp
qed

section \<open>Rounding inside a binade\<close>

lemma round_half_even_near:
  assumes "of_int n - 1 / 2 < x" and "x < of_int n + 1 / 2"
  shows "round_half_even x = n"
proof (cases "of_int n \<le> x")
  case True
  then have "\<lfloor>x\<rfloor> = n" using assms(2) by linarith
  then show ?thesis using assms(2) by (simp add: round_half_even_def Let_def)
next
  case False
  then have "\<lfloor>x\<rfloor> = n - 1" using assms(1) by linarith
  then show ?thesis using assms(1) by (simp add: round_half_even_def Let_def)
qed

lemma near32_in_binade:
  assumes "2 powi e \<le> \<bar>x\<bar>" and "\<bar>x\<bar> < 2 powi (e + 1)" and "- 126 \<le> e"
  shows "near32 x = of_int (round_half_even (x / 2 powi (e - 23))) * 2 powi (e - 23)"
proof -
  have "ilog2 \<bar>x\<bar> = e" using assms(1,2) by (rule ilog2_unique)
  then have "quantum 24 (- 126) x = 2 powi (e - 23)" using assms(3) by (simp add: quantum_def)
  then show ?thesis by (simp add: nearest_def)
qed

lemma float_round_minus: "float_round (- x) = fp_neg (float_round x)"
  by (simp add: float_round_eq nearest_minus nearest_0)

lemma float_round_small:
  assumes "\<bar>near32 x\<bar> < 2 ^ 128"
  shows "float_round x = Finite (near32 x)"
  using assms by (simp add: float_round_eq)

text \<open>A \<^verbatim>\<open>float\<close> above \<open>2 ^ 24\<close> on the grid of its binade.\<close>

lemma big_float_grid:
  assumes "is_float h" and "2 ^ 24 \<le> h"
  obtains e m where "24 \<le> e" and "e \<le> 127" and "h = of_int m * 2 powi (e - 23)"
    and "2 ^ 23 \<le> m" and "m < 2 ^ 24" and "2 powi e \<le> h" and "h < 2 powi (e + 1)"
proof -
  have "(0::real) < 2 ^ 24" by simp
  then have pos: "0 < h" using assms(2) by linarith
  define e where "e = ilog2 h"
  have lo: "2 powi e \<le> h" and hi: "h < 2 powi (e + 1)"
    unfolding e_def using pos by (rule ilog2_bounds)+
  have "(2::real) powi 24 \<le> h" using assms(2) by simp
  then have "(2::real) powi 24 < 2 powi (e + 1)" using hi by linarith
  then have "24 < e + 1" by (simp only: two_powi_less_iff)
  then have e24: "24 \<le> e" by simp
  have "h < 2 ^ 128" using assms(1) pos by (simp add: is_float_iff)
  then have "(2::real) powi e < 2 powi 128" using lo by simp
  then have "e < 128" by (simp only: two_powi_less_iff)
  then have e127: "e \<le> 127" by simp
  have a: "\<bar>h\<bar> = h" using pos by simp
  from is_float_grid [of h e] assms(1) lo hi e24 a obtain m
    where m: "h = of_int m * 2 powi (e - 23)" by auto
  have split: "(2::real) powi e = 2 ^ 23 * 2 powi (e - 23)"
    "(2::real) powi (e + 1) = 2 ^ 24 * 2 powi (e - 23)"
    by (simp_all add: power_int_diff power_int_add)
  have "2 ^ 23 * 2 powi (e - 23) \<le> real_of_int m * 2 powi (e - 23)"
    using lo unfolding split m by simp
  then have "(2::real) ^ 23 \<le> real_of_int m" by simp
  then have m1: "2 ^ 23 \<le> m" by (metis of_int_le_iff of_int_numeral of_int_power)
  have "real_of_int m * 2 powi (e - 23) < 2 ^ 24 * 2 powi (e - 23)"
    using hi unfolding split m by simp
  then have "real_of_int m < 2 ^ 24" by simp
  then have m2: "m < 2 ^ 24" by (metis of_int_less_iff of_int_numeral of_int_power)
  from e24 e127 m m1 m2 lo hi show ?thesis by (rule that)
qed

section \<open>Steps of the normalising loops\<close>

text \<open>
  Subtracting 360 from a \<^verbatim>\<open>float\<close> of at most \<open>2 ^ 33\<close> gives a \<^verbatim>\<open>float\<close> at least 1 smaller;
  above \<open>2 ^ 33\<close>, where the \<^verbatim>\<open>float\<close> values are 1024 or more apart, it gives the
  \<^verbatim>\<open>float\<close> back.
\<close>

lemma sub_360_on_512_grid:
  assumes "h = of_int M * 512" and "2 ^ 23 < M" and "M \<le> 2 ^ 24"
  shows "\<exists>y. float_round (h - 360) = Finite y \<and> is_float y \<and> 0 \<le> y \<and> y \<le> h - 1"
proof -
  have "2 ^ 23 + 1 \<le> M" using assms(2) by simp
  then have "real_of_int (2 ^ 23 + 1) \<le> real_of_int M" by (simp only: of_int_le_iff)
  then have M1: "2 ^ 23 + 1 \<le> real_of_int M" by simp
  have M2: "real_of_int M \<le> 2 ^ 24"
    using assms(3) by (metis of_int_le_iff of_int_numeral of_int_power)
  define x where "x = h - 360"
  have x: "x = real_of_int M * 512 - 360" by (simp add: x_def assms(1))
  have lo: "2 powi 32 \<le> \<bar>x\<bar>" and hi: "\<bar>x\<bar> < 2 powi (32 + 1)" using M1 M2 by (simp_all add: x)
  have d: "x / 512 = real_of_int M - 45 / 64" by (simp add: x field_simps)
  have "round_half_even (real_of_int M - 45 / 64) = M - 1"
    by (rule round_half_even_near) simp_all
  then have r: "round_half_even (x / 512) = M - 1" by (simp only: d)
  have "near32 x = of_int (round_half_even (x / 512)) * 512"
    using near32_in_binade [OF lo hi] by simp
  then have n: "near32 x = of_int (M - 1) * 512" by (simp only: r)
  have "\<bar>near32 x\<bar> < 2 ^ 128" using M1 M2 by (simp add: n)
  then have fr: "float_round x = Finite (of_int (M - 1) * 512)"
    using float_round_small [of x] by (simp add: n)
  then have "is_float (of_int (M - 1) * 512)" by (rule float_round_Finite)
  moreover have "0 \<le> real_of_int (M - 1) * 512" using M1 by simp
  moreover have "real_of_int (M - 1) * 512 \<le> h - 1" by (simp add: assms(1))
  ultimately show ?thesis using fr by (simp add: x_def)
qed

lemma sub_360_step:
  assumes "is_float h" and "360 \<le> h" and "h \<le> 2 ^ 33"
  shows "\<exists>y. float_round (h - 360) = Finite y \<and> is_float y \<and> 0 \<le> y \<and> y \<le> h - 1"
proof (cases "h < 2 ^ 24")
  case True
  have c: "\<lceil>h\<rceil> \<le> 2 ^ 24" using True by (simp add: ceiling_le_iff)
  have c360: "360 \<le> \<lceil>h\<rceil>" using assms(2) by (simp add: le_ceiling_iff)
  have "\<bar>\<lceil>h\<rceil> - 360\<bar> \<le> 2 ^ 24" using c c360 by linarith
  then have "is_float (of_int (\<lceil>h\<rceil> - 360))" by (rule is_float_of_int)
  moreover have "h - 360 \<le> of_int (\<lceil>h\<rceil> - 360)" by simp
  moreover have "0 \<le> h - 360" using assms(2) by simp
  ultimately obtain y where y: "float_round (h - 360) = Finite y" "is_float y" "0 \<le> y"
      "y \<le> of_int (\<lceil>h\<rceil> - 360)"
    using float_round_between [OF is_float_0, of "of_int (\<lceil>h\<rceil> - 360)" "h - 360"] by blast
  have "real_of_int \<lceil>h\<rceil> < h + 1" by linarith
  then have "y \<le> h - 1" using y(4) by simp
  with y show ?thesis by blast
next
  case False
  then have "2 ^ 24 \<le> h" by simp
  from big_float_grid [OF assms(1) this] obtain e m
    where e: "24 \<le> e" "e \<le> 127" and m: "h = of_int m * 2 powi (e - 23)"
      and m1: "2 ^ 23 \<le> m" and m2: "m < 2 ^ 24"
      and lo: "2 powi e \<le> h" and hi: "h < 2 powi (e + 1)"
    by blast
  have "(2::real) powi e \<le> 2 powi 33" using lo assms(3) by simp
  then have e33: "e \<le> 33" by (simp only: two_powi_le_iff)
  have rm1: "(2::real) ^ 23 \<le> real_of_int m"
    using m1 by (metis of_int_le_iff of_int_numeral of_int_power)
  consider "e \<le> 31" | "e = 32" "m = 2 ^ 23" | "e = 32" "2 ^ 23 < m" | "e = 33"
    using e33 m1 by linarith
  then show ?thesis
  proof cases
    case 1
    define q :: real where "q = 2 powi (e - 23)"
    have "1 \<le> e - 23" using e(1) by simp
    then have "(2::real) powi 1 \<le> 2 powi (e - 23)" by (simp only: two_powi_le_iff)
    then have q2: "2 \<le> q" by (simp add: q_def)
    have "e - 23 \<le> 8" using 1 by simp
    then have "(2::real) powi (e - 23) \<le> 2 powi 8" by (simp only: two_powi_le_iff)
    then have q256: "q \<le> 256" by (simp add: q_def)
    have "\<bar>m - 1\<bar> < 2 ^ 24" using m1 m2 by simp
    then have c: "is_float (of_int (m - 1) * 2 powi (e - 23))"
      using e by (intro is_float_dyadic) simp_all
    have ceq: "real_of_int (m - 1) * 2 powi (e - 23) = h - q" by (simp add: m q_def algebra_simps)
    have "h - 360 \<le> h - q" using q256 by simp
    moreover have "0 \<le> h - 360" using assms(2) by simp
    ultimately obtain y where y: "float_round (h - 360) = Finite y" "is_float y" "0 \<le> y"
        "y \<le> h - q"
      using float_round_between [OF is_float_0 c, of "h - 360"] unfolding ceq by blast
    have "y \<le> h - 1" using y(4) q2 by simp
    with y show ?thesis by blast
  next
    case 2
    have h32: "h = 2 ^ 32" by (simp add: m 2)
    have "is_float (of_int (2 ^ 24 - 1) * 2 powi 8)" by (rule is_float_dyadic) simp_all
    then have c: "is_float 4294967040" by simp
    obtain y where y: "float_round (h - 360) = Finite y" "is_float y" "0 \<le> y"
        "y \<le> 4294967040"
      using float_round_between [OF is_float_0 c, of "h - 360"] by (auto simp: h32)
    have "y \<le> h - 1" using y(4) by (simp add: h32)
    with y show ?thesis by blast
  next
    case 3
    have "h = of_int m * 512" by (simp add: m 3)
    then show ?thesis using 3(2) m2 by (intro sub_360_on_512_grid [of h m]) simp_all
  next
    case 4
    have "real_of_int m * 1024 \<le> 2 ^ 33" using assms(3) by (simp add: m 4)
    then have "real_of_int m \<le> 2 ^ 23" by simp
    then have "real_of_int m = 2 ^ 23" using rm1 by simp
    then have "h = of_int (2 ^ 24) * 512" by (simp add: m 4)
    then show ?thesis by (intro sub_360_on_512_grid [of h "2 ^ 24"]) simp_all
  qed
qed


section \<open>The hues on which the normalising loops end\<close>

text \<open>A hue that the subtraction of 360 rounds back to itself is never normalised.\<close>

lemma while_ge_360_stuck:
  assumes "fp_ge h (int_to_float 360)" and "fsub h (int_to_float 360) = h"
  shows "while_ge_360 h = None"
proof -
  have never: "a \<noteq> h" if "while_ge_360 a = Some b" for a b
  proof (rule while_ge_360.raw_induct [where P = "\<lambda>a b. a \<noteq> h", OF _ that])
    fix loop :: "fp \<Rightarrow> fp option" and a b
    assume IH: "\<And>x y. loop x = Some y \<Longrightarrow> x \<noteq> h"
      and step: "(if fp_ge a (int_to_float 360) then loop (fsub a (int_to_float 360)) else Some a)
        = Some b"
    show "a \<noteq> h"
    proof
      assume "a = h"
      with step assms have "loop h = Some b" by simp
      with IH show False by blast
    qed
  qed
  show ?thesis
  proof (cases "while_ge_360 h")
    case None
    then show ?thesis .
  next
    case (Some b)
    with never show ?thesis by blast
  qed
qed

lemma add_360_step:
  assumes "is_float h" and "h < - 360" and "- (2 ^ 33) \<le> h"
  shows "\<exists>y. float_round (h + 360) = Finite y \<and> is_float y \<and> h + 1 \<le> y \<and> y \<le> 0"
proof -
  have "is_float (- h)" "360 \<le> - h" "- h \<le> 2 ^ 33"
    using assms by (simp_all add: is_float_minus)
  from sub_360_step [OF this] obtain y
    where y: "float_round (- h - 360) = Finite y" "is_float y" "0 \<le> y" "y \<le> - h - 1" by blast
  have "float_round (h + 360) = fp_neg (float_round (- h - 360))"
    using float_round_minus [of "- h - 360"] by (simp add: add.commute)
  then have "float_round (h + 360) = Finite (- y)" by (simp add: y(1))
  moreover have "is_float (- y)" using y(2) by (simp add: is_float_minus)
  ultimately show ?thesis using y(3,4) by auto
qed


lemma while_lt_0_stuck:
  assumes "fp_lt h (int_to_float 0)" and "fadd h (int_to_float 360) = h"
  shows "while_lt_0 h = None"
proof -
  have never: "a \<noteq> h" if "while_lt_0 a = Some b" for a b
  proof (rule while_lt_0.raw_induct [where P = "\<lambda>a b. a \<noteq> h", OF _ that])
    fix loop :: "fp \<Rightarrow> fp option" and a b
    assume IH: "\<And>x y. loop x = Some y \<Longrightarrow> x \<noteq> h"
      and step: "(if fp_lt a (int_to_float 0) then loop (fadd a (int_to_float 360)) else Some a)
        = Some b"
    show "a \<noteq> h"
    proof
      assume "a = h"
      with step assms have "loop h = Some b" by simp
      with IH show False by blast
    qed
  qed
  show ?thesis
  proof (cases "while_lt_0 h")
    case None
    then show ?thesis .
  next
    case (Some b)
    with never show ?thesis by blast
  qed
qed

text \<open>The first loop ends on the hues from 0 to \<open>2 ^ 33\<close>, the second from \<open>- (2 ^ 33)\<close> on.\<close>

lemma while_ge_360_ends:
  assumes "is_float h" and "0 \<le> h" and "h \<le> 2 ^ 33"
  shows "\<exists>r. while_ge_360 (Finite h) = Some (Finite r) \<and> is_float r \<and> 0 \<le> r \<and> r < 360"
  using assms
proof (induction "nat \<lceil>h\<rceil>" arbitrary: h rule: less_induct)
  case less
  show ?case
  proof (cases "h < 360")
    case True
    with less.prems show ?thesis by (auto simp: while_ge_360_below)
  next
    case False
    then have ge: "360 \<le> h" by simp
    from sub_360_step [OF less.prems(1) ge less.prems(3)] obtain y
      where y: "float_round (h - 360) = Finite y" "is_float y" "0 \<le> y" "y \<le> h - 1" by blast
    have "\<lceil>y\<rceil> \<le> \<lceil>h - 1\<rceil>" using y(4) by (rule ceiling_mono)
    then have "\<lceil>y\<rceil> < \<lceil>h\<rceil>" by simp
    moreover have "0 < \<lceil>h\<rceil>" using ge by (simp add: less_ceiling_iff)
    ultimately have "nat \<lceil>y\<rceil> < nat \<lceil>h\<rceil>" by linarith
    moreover have "y \<le> 2 ^ 33" using y(4) less.prems(3) by linarith
    ultimately obtain r where "while_ge_360 (Finite y) = Some (Finite r)" "is_float r" "0 \<le> r"
        "r < 360"
      using less.hyps [of y] y(2,3) by blast
    then show ?thesis using while_ge_360_step [OF ge] y(1) by auto
  qed
qed

lemma while_lt_0_ends:
  assumes "is_float h" and "- (2 ^ 33) \<le> h" and "h < 0"
  shows "\<exists>r. while_lt_0 (Finite h) = Some (Finite r) \<and> is_float r \<and> 0 \<le> r \<and> r \<le> 360"
  using assms
proof (induction "nat \<lceil>- h\<rceil>" arbitrary: h rule: less_induct)
  case less
  show ?case
  proof (cases "h < - 360")
    case False
    then have "0 \<le> h + 360" "h + 360 \<le> 360" using less.prems(3) by simp_all
    from float_round_between [OF is_float_0 is_float_360 this] obtain y
      where y: "float_round (h + 360) = Finite y" "is_float y" "0 \<le> y" "y \<le> 360" by blast
    then show ?thesis
      using while_lt_0_step [OF less.prems(3)] by (auto simp: while_lt_0_above)
  next
    case True
    from add_360_step [OF less.prems(1) True less.prems(2)] obtain y
      where y: "float_round (h + 360) = Finite y" "is_float y" "h + 1 \<le> y" "y \<le> 0" by blast
    show ?thesis
    proof (cases "y = 0")
      case True
      then show ?thesis
        using while_lt_0_step [OF less.prems(3)] y(1,2) by (auto simp: while_lt_0_above)
    next
      case False
      then have yneg: "y < 0" using y(4) by simp
      have "\<lceil>- y\<rceil> \<le> \<lceil>- h - 1\<rceil>" using y(3) by (intro ceiling_mono) simp
      then have "\<lceil>- y\<rceil> < \<lceil>- h\<rceil>" by simp
      moreover have "0 < \<lceil>- h\<rceil>" using less.prems(3) by (simp add: less_ceiling_iff)
      ultimately have "nat \<lceil>- y\<rceil> < nat \<lceil>- h\<rceil>" by linarith
      moreover have "- (2 ^ 33) \<le> y" using y(3) less.prems(2) by linarith
      ultimately obtain r where "while_lt_0 (Finite y) = Some (Finite r)" "is_float r" "0 \<le> r"
          "r \<le> 360"
        using less.hyps [of y] y(2) yneg by blast
      then show ?thesis using while_lt_0_step [OF less.prems(3)] y(1) by auto
    qed
  qed
qed

lemma normalise_hue_ends:
  assumes "is_float h" and "\<bar>h\<bar> \<le> 2 ^ 33"
  shows "\<exists>r. normalise_hue (Finite h) = Some (Finite r) \<and> is_float r \<and> 0 \<le> r \<and> r \<le> 360
           \<and> (0 \<le> h \<longrightarrow> r < 360)"
proof (cases "0 \<le> h")
  case True
  then obtain r where "while_ge_360 (Finite h) = Some (Finite r)" "is_float r" "0 \<le> r" "r < 360"
    using while_ge_360_ends [of h] assms by auto
  then show ?thesis by (auto simp: normalise_hue_def while_lt_0_above)
next
  case False
  then have neg: "h < 0" by simp
  then obtain r where "while_lt_0 (Finite h) = Some (Finite r)" "is_float r" "0 \<le> r" "r \<le> 360"
    using while_lt_0_ends [of h] assms by auto
  then show ?thesis using neg by (auto simp: normalise_hue_def while_ge_360_below)
qed


lemma normalise_hue_infinite:
  "normalise_hue PlusInf = None" "normalise_hue MinusInf = None"
proof -
  have "while_ge_360 PlusInf = None"
    by (rule while_ge_360_stuck) (simp_all add: fp_ge_def int_to_float_360 fp_sub_def)
  then show "normalise_hue PlusInf = None" by (simp add: normalise_hue_def)
  have "while_lt_0 MinusInf = None"
    by (rule while_lt_0_stuck) (simp_all add: int_to_float_0 int_to_float_360)
  moreover have "while_ge_360 MinusInf = Some MinusInf"
    by (subst while_ge_360.simps) (simp add: fp_ge_def int_to_float_360)
  ultimately show "normalise_hue MinusInf = None" by (simp add: normalise_hue_def)
qed

lemma normalise_hue_NaN: "normalise_hue NaN = Some NaN"
proof -
  have "while_ge_360 NaN = Some NaN"
    by (subst while_ge_360.simps) (simp add: fp_ge_def int_to_float_360)
  moreover have "while_lt_0 NaN = Some NaN"
    by (subst while_lt_0.simps) simp
  ultimately show ?thesis by (simp add: normalise_hue_def)
qed

section \<open>The sector computation on normalised hues\<close>

lemma unit_fpE:
  assumes "unit_fp a"
  obtains x where "a = Finite x" and "is_float x" and "0 \<le> x" and "x \<le> 1"
  using assms by (cases a) (auto simp: unit_fp_def)

lemma unit_fpI: "is_float x \<Longrightarrow> 0 \<le> x \<Longrightarrow> x \<le> 1 \<Longrightarrow> unit_fp (Finite x)"
  by (simp add: unit_fp_def)

lemma unit_fp_0: "unit_fp (Finite 0)"
  by (simp add: unit_fpI is_float_0)

lemma unit_fp_1: "unit_fp (Finite 1)"
  by (simp add: unit_fpI is_float_1)

lemma float_round_unit:
  assumes "0 \<le> x" and "x \<le> 1"
  shows "unit_fp (float_round x)"
  using float_round_between [OF is_float_0 is_float_1 assms] by (auto simp: unit_fp_def)

lemma unit_fmul:
  assumes "unit_fp a" and "unit_fp b"
  shows "unit_fp (fmul a b)"
proof -
  from assms(1) obtain x where x: "a = Finite x" "0 \<le> x" "x \<le> 1" by (rule unit_fpE)
  from assms(2) obtain y where y: "b = Finite y" "0 \<le> y" "y \<le> 1" by (rule unit_fpE)
  have "0 \<le> x * y" using x y by simp
  moreover have "x * y \<le> 1" using x y by (simp add: mult_le_one)
  ultimately show ?thesis unfolding x(1) y(1) by (simp add: float_round_unit)
qed

lemma unit_one_minus:
  assumes "unit_fp a"
  shows "unit_fp (fsub (int_to_float 1) a)"
proof -
  from assms obtain x where x: "a = Finite x" "0 \<le> x" "x \<le> 1" by (rule unit_fpE)
  show ?thesis unfolding x(1) int_to_float_1 fsub_Finite using x by (intro float_round_unit) auto
qed

lemma trunc_mono:
  assumes "x \<le> y"
  shows "trunc x \<le> trunc y"
proof -
  consider "0 \<le> x" | "x < 0" "0 \<le> y" | "y < 0" by linarith
  then show ?thesis
  proof cases
    case 1
    then show ?thesis using assms by (simp add: trunc_def floor_mono)
  next
    case 2
    then have c: "\<lceil>x\<rceil> \<le> 0" "0 \<le> \<lfloor>y\<rfloor>" by (simp_all add: ceiling_le_iff)
    have "trunc x = \<lceil>x\<rceil>" "trunc y = \<lfloor>y\<rfloor>" using 2 by (simp_all add: trunc_def)
    then show ?thesis using c by linarith
  next
    case 3
    then show ?thesis using assms by (simp add: trunc_def ceiling_mono)
  qed
qed

lemma trunc_of_int: "trunc (of_int n) = n"
  by (simp add: trunc_def)

lemma channel_Finite:
  assumes "is_float x" and "0 \<le> x" and "x \<le> 1"
  shows "\<exists>n. channel (Finite x) = Inr n \<and> 0 \<le> n \<and> n \<le> 255 \<and> n = trunc (near32 (x * 255))"
proof -
  have "0 \<le> x * 255" "x * 255 \<le> 255" using assms by auto
  then obtain y where y: "float_round (x * 255) = Finite y" "0 \<le> y" "y \<le> 255"
    using float_round_between [OF is_float_0 is_float_255, of "x * 255"] by blast
  have yn: "y = near32 (x * 255)" using y(1) by (rule float_round_Finite)
  have "trunc 0 \<le> trunc y" using y(2) by (rule trunc_mono)
  moreover have "trunc y \<le> trunc (of_int 255)" using y(3) by (intro trunc_mono) simp
  ultimately have "0 \<le> trunc y" "trunc y \<le> 255" by (simp_all add: trunc_def)
  then show ?thesis
    using y(1) yn
    by (simp add: channel_def int_to_float_255 float_to_int_def float_to_integer_def
        INT_MIN_def INT_MAX_def)
qed

lemma channel_unit:
  assumes "unit_fp c"
  shows "\<exists>n. channel c = Inr n \<and> 0 \<le> n \<and> n \<le> 255"
proof -
  from assms obtain x where "c = Finite x" "is_float x" "0 \<le> x" "x \<le> 1" by (rule unit_fpE)
  then show ?thesis using channel_Finite [of x] by auto
qed

lemma channel_0: "channel (Finite 0) = Inr 0"
  by (simp add: channel_def int_to_float_255 fp_eval conv_eval)

lemma channel_1: "channel (Finite 1) = Inr 255"
  by (simp add: channel_def int_to_float_255 fp_eval conv_eval)

lemma float_to_int_small:
  assumes "\<bar>x\<bar> \<le> 2 ^ 24"
  shows "float_to_int (Finite x) = Inr (trunc x)"
proof -
  have "trunc (of_int (- (2 ^ 24))) \<le> trunc x" using assms by (intro trunc_mono) simp
  moreover have "trunc x \<le> trunc (of_int (2 ^ 24))" using assms by (intro trunc_mono) simp
  ultimately have "- (2 ^ 24) \<le> trunc x" "trunc x \<le> 2 ^ 24" by (simp_all only: trunc_of_int)
  then show ?thesis
    by (simp add: float_to_int_def float_to_integer_def INT_MIN_def INT_MAX_def)
qed

lemma sector_select_cases:
  "sector_select i v p q t \<in> {(v, t, p), (q, v, p), (p, v, t), (p, q, v), (t, p, v), (v, p, q)}"
  by (simp add: sector_select_def)

lemma hsv_sector_channels:
  assumes "float_to_int (fdiv h (int_to_float 60)) = Inr i"
    and "sector_select i v (fmul v (fsub (int_to_float 1) s))
           (fmul v (fsub (int_to_float 1) (fmul s (fsub (fdiv h (int_to_float 60)) (int_to_float i)))))
           (fmul v (fsub (int_to_float 1) (fmul s (fsub (int_to_float 1)
              (fsub (fdiv h (int_to_float 60)) (int_to_float i))))))
         = (r1, g1, b1)"
    and "channel r1 = Inr r" and "channel g1 = Inr g" and "channel b1 = Inr b"
  shows "hsv_sector h s v = Inr (r, g, b)"
  using assms by (simp add: hsv_sector_def then_do_def Let_def)

text \<open>The sector index and the fraction of a normalised hue.\<close>

lemma sector_of_hue:
  assumes "is_float h" and "0 \<le> h" and "h \<le> 360"
  shows "\<exists>i f. float_to_int (fdiv (Finite h) (int_to_float 60)) = Inr i
           \<and> fsub (fdiv (Finite h) (int_to_float 60)) (int_to_float i) = f \<and> unit_fp f"
proof -
  have "0 \<le> h / 60" "h / 60 \<le> 6" using assms by auto
  then obtain d where d: "float_round (h / 60) = Finite d" "is_float d" "0 \<le> d" "d \<le> 6"
    using float_round_between [OF is_float_0 is_float_6, of "h / 60"] by blast
  have fd: "fdiv (Finite h) (int_to_float 60) = Finite d"
    by (simp add: int_to_float_60 d(1))
  have "\<bar>d\<bar> \<le> 2 ^ 24" using d(3,4) by simp
  then have i: "float_to_int (Finite d) = Inr (trunc d)" by (rule float_to_int_small)
  have t: "trunc d = \<lfloor>d\<rfloor>" using d(3) by (simp add: trunc_def)
  have "0 \<le> \<lfloor>d\<rfloor>" "\<lfloor>d\<rfloor> \<le> 6" using d(3,4) by (simp_all add: floor_le_iff) 
  then have "\<bar>\<lfloor>d\<rfloor>\<bar> \<le> 2 ^ 24" by simp
  then have itf: "int_to_float \<lfloor>d\<rfloor> = Finite (of_int \<lfloor>d\<rfloor>)" by (rule int_to_float_small)
  have "0 \<le> d - of_int \<lfloor>d\<rfloor>" "d - of_int \<lfloor>d\<rfloor> \<le> 1" by linarith+
  then have "unit_fp (float_round (d - of_int \<lfloor>d\<rfloor>))" by (rule float_round_unit)
  then show ?thesis by (simp add: fd i t itf fsub_Finite)
qed

lemma hsv_sector_total:
  assumes "is_float h" and "0 \<le> h" and "h \<le> 360" and "unit_fp s" and "unit_fp v"
  shows "\<exists>r g b. hsv_sector (Finite h) s v = Inr (r, g, b)
           \<and> 0 \<le> r \<and> r \<le> 255 \<and> 0 \<le> g \<and> g \<le> 255 \<and> 0 \<le> b \<and> b \<le> 255"
proof -
  from sector_of_hue [OF assms(1-3)] obtain i f
    where i: "float_to_int (fdiv (Finite h) (int_to_float 60)) = Inr i"
      and f: "fsub (fdiv (Finite h) (int_to_float 60)) (int_to_float i) = f" "unit_fp f" by blast
  define p where "p = fmul v (fsub (int_to_float 1) s)"
  define q where "q = fmul v (fsub (int_to_float 1) (fmul s f))"
  define t where "t = fmul v (fsub (int_to_float 1) (fmul s (fsub (int_to_float 1) f)))"
  have up: "unit_fp p" unfolding p_def using assms(4,5) by (intro unit_fmul unit_one_minus)
  have uq: "unit_fp q" unfolding q_def using assms(4,5) f(2) by (intro unit_fmul unit_one_minus)
  have ut: "unit_fp t" unfolding t_def using assms(4,5) f(2) by (intro unit_fmul unit_one_minus)
  obtain r1 g1 b1 where sel: "sector_select i v p q t = (r1, g1, b1)"
    by (cases "sector_select i v p q t") auto
  have u: "unit_fp r1" "unit_fp g1" "unit_fp b1"
    using sector_select_cases [of i v p q t] up uq ut assms(5) unfolding sel by auto
  from channel_unit [OF u(1)] obtain r where r: "channel r1 = Inr r" "0 \<le> r" "r \<le> 255"
    by blast
  from channel_unit [OF u(2)] obtain g where g: "channel g1 = Inr g" "0 \<le> g" "g \<le> 255"
    by blast
  from channel_unit [OF u(3)] obtain b where b: "channel b1 = Inr b" "0 \<le> b" "b \<le> 255"
    by blast
  have "hsv_sector (Finite h) s v = Inr (r, g, b)"
    using i sel r(1) g(1) b(1) unfolding p_def q_def t_def f(1) [symmetric]
    by (rule hsv_sector_channels)
  with r g b show ?thesis by blast
qed

section \<open>Grey levels, shifted hues and hues that are never normalised\<close>

lemma fmul_Finite: "fmul (Finite a) (Finite b) = float_round (a * b)"
  by simp

lemma fmul_one_right: "is_float x \<Longrightarrow> fmul (Finite x) (Finite 1) = Finite x"
  by (simp add: is_float_def)

lemma fmul_zero_left: "fmul (Finite 0) (Finite x) = Finite 0"
  using is_float_0 by (simp add: is_float_def)

lemma fsub_one_zero: "fsub (int_to_float 1) (Finite 0) = Finite 1"
  using is_float_1 by (simp add: int_to_float_1 fsub_Finite is_float_def)

lemma fsub_one_one: "fsub (int_to_float 1) (Finite 1) = Finite 0"
  using is_float_0 by (simp add: int_to_float_1 fsub_Finite is_float_def)

text \<open>With saturation 0 the three intermediate values are the value itself.\<close>

lemma hsv_sector_grey:
  assumes "is_float h" and "0 \<le> h" and "h \<le> 360" and "is_float v"
    and "channel (Finite v) = Inr c"
  shows "hsv_sector (Finite h) (Finite 0) (Finite v) = Inr (c, c, c)"
proof -
  from sector_of_hue [OF assms(1-3)] obtain i f
    where i: "float_to_int (fdiv (Finite h) (int_to_float 60)) = Inr i"
      and f: "fsub (fdiv (Finite h) (int_to_float 60)) (int_to_float i) = f" "unit_fp f" by blast
  from f(2) obtain x where x: "f = Finite x" by (rule unit_fpE)
  from unit_one_minus [OF f(2)] obtain y where y: "fsub (int_to_float 1) f = Finite y"
    by (rule unit_fpE)
  have p: "fmul (Finite v) (fsub (int_to_float 1) (Finite 0)) = Finite v"
    using assms(4) by (simp only: fsub_one_zero fmul_one_right)
  have q: "fmul (Finite v) (fsub (int_to_float 1) (fmul (Finite 0) f)) = Finite v"
    unfolding x using assms(4) by (simp only: fmul_zero_left fsub_one_zero fmul_one_right)
  have t: "fmul (Finite v) (fsub (int_to_float 1) (fmul (Finite 0) (fsub (int_to_float 1) f)))
      = Finite v"
    unfolding y using assms(4) by (simp only: fmul_zero_left fsub_one_zero fmul_one_right)
  have sel: "sector_select i (Finite v) (Finite v) (Finite v) (Finite v)
      = (Finite v, Finite v, Finite v)"
    by (simp add: sector_select_def)
  show ?thesis
    by (rule hsv_sector_channels [OF i _ assms(5) assms(5) assms(5)])
      (simp only: f(1) p q t sel)
qed

lemma hsv_to_rgb_grey:
  assumes "is_float h" and "\<bar>h\<bar> \<le> 2 ^ 33" and "is_float v" and "channel (Finite v) = Inr c"
  shows "hsv_to_rgb (Finite h) (Finite 0) (Finite v) = Some (Inr (c, c, c))"
proof -
  from normalise_hue_ends [OF assms(1,2)] obtain r
    where r: "normalise_hue (Finite h) = Some (Finite r)" "is_float r" "0 \<le> r" "r \<le> 360"
    by blast
  show ?thesis
    unfolding hsv_to_rgb_def r(1) using hsv_sector_grey [OF r(2-4) assms(3,4)] by simp
qed



lemma while_ge_360_ten_thousand_million: "while_ge_360 (Finite 10000000000) = None"
  by (rule while_ge_360_stuck)
    (simp_all add: fp_ge_def int_to_float_360 fp_sub_def fp_eval)


section \<open>Full saturation and value; the conversion at concrete hues\<close>

text \<open>With saturation and value 1, one channel is the value and one is \<open>p = 0\<close>.\<close>

lemma hsv_sector_full:
  assumes "is_float h" and "0 \<le> h" and "h \<le> 360"
  shows "\<exists>r g b. hsv_sector (Finite h) (Finite 1) (Finite 1) = Inr (r, g, b)
           \<and> (r = 0 \<or> g = 0 \<or> b = 0) \<and> (r = 255 \<or> g = 255 \<or> b = 255)
           \<and> 0 \<le> r \<and> r \<le> 255 \<and> 0 \<le> g \<and> g \<le> 255 \<and> 0 \<le> b \<and> b \<le> 255"
proof -
  from sector_of_hue [OF assms(1-3)] obtain i f
    where i: "float_to_int (fdiv (Finite h) (int_to_float 60)) = Inr i"
      and f: "fsub (fdiv (Finite h) (int_to_float 60)) (int_to_float i) = f" "unit_fp f" by blast
  define q where "q = fmul (Finite 1) (fsub (int_to_float 1) (fmul (Finite 1) f))"
  define t where "t = fmul (Finite 1) (fsub (int_to_float 1) (fmul (Finite 1) (fsub (int_to_float 1) f)))"
  have p: "fmul (Finite 1) (fsub (int_to_float 1) (Finite 1)) = Finite 0"
    by (simp only: fsub_one_one fmul_one_right [OF is_float_0] fmul_zero_left)
      (simp add: is_float_0 [unfolded is_float_def])
  have uq: "unit_fp q" unfolding q_def using f(2) unit_fp_1 by (intro unit_fmul unit_one_minus)
  have ut: "unit_fp t" unfolding t_def using f(2) unit_fp_1 by (intro unit_fmul unit_one_minus)
  from channel_unit [OF uq] obtain cq where cq: "channel q = Inr cq" "0 \<le> cq" "cq \<le> 255"
    by blast
  from channel_unit [OF ut] obtain ct where ct: "channel t = Inr ct" "0 \<le> ct" "ct \<le> 255"
    by blast
  note sel = sector_select_cases [of i "Finite 1" "Finite 0" q t]
  note rule = hsv_sector_channels [OF i, of "Finite 1" "Finite 1", unfolded p f(1),
      folded q_def t_def]
  from sel consider
      "sector_select i (Finite 1) (Finite 0) q t = (Finite 1, t, Finite 0)"
    | "sector_select i (Finite 1) (Finite 0) q t = (q, Finite 1, Finite 0)"
    | "sector_select i (Finite 1) (Finite 0) q t = (Finite 0, Finite 1, t)"
    | "sector_select i (Finite 1) (Finite 0) q t = (Finite 0, q, Finite 1)"
    | "sector_select i (Finite 1) (Finite 0) q t = (t, Finite 0, Finite 1)"
    | "sector_select i (Finite 1) (Finite 0) q t = (Finite 1, Finite 0, q)"
    by auto
  then show ?thesis
  proof cases
    case 1
    from rule [OF 1 channel_1 ct(1) channel_0] ct show ?thesis by simp
  next
    case 2
    from rule [OF 2 cq(1) channel_1 channel_0] cq show ?thesis by simp
  next
    case 3
    from rule [OF 3 channel_0 channel_1 ct(1)] ct show ?thesis by simp
  next
    case 4
    from rule [OF 4 channel_0 cq(1) channel_1] cq show ?thesis by simp
  next
    case 5
    from rule [OF 5 ct(1) channel_0 channel_1] ct show ?thesis by simp
  next
    case 6
    from rule [OF 6 channel_1 channel_0 cq(1)] cq show ?thesis by simp
  qed
qed


text \<open>Evaluation of the conversion at a concrete hue already in the range.\<close>

lemmas hsv_eval =
  hsv_sector_def channel_def sector_select_def int_to_float_0 int_to_float_1 int_to_float_60
  int_to_float_255 fp_sub_def conv_eval float_round_def round_to_def nearest_def
  quantum_def ilog2_def round_half_even_def Let_def bitlen_One bitlen_Bit0 bitlen_Bit1

lemma is_float_59_9: "is_float (7851213 / 131072)"
  by (simp add: is_float_def fp_eval)

lemma literal_59_9: "double_to_float (double_const (599 / 10)) = Finite (7851213 / 131072)"
  by (simp add: fp_eval)

lemma hsv_sector_59_9:
  "hsv_sector (Finite (7851213 / 131072)) (Finite 1) (Finite 1) = Inr (255, 254, 0)"
  by (simp add: hsv_eval)

lemma hsv_sector_60: "hsv_sector (Finite 60) (Finite 1) (Finite 1) = Inr (255, 255, 0)"
  by (simp add: hsv_eval)

lemma hsv_sector_0: "hsv_sector (Finite 0) (Finite 1) (Finite 1) = Inr (255, 0, 0)"
  by (simp add: hsv_eval)

section \<open>The motion statements\<close>

lemma int_result_ok: "INT_MIN \<le> n \<Longrightarrow> n \<le> INT_MAX \<Longrightarrow> int_result n = Inr n"
  by (simp add: int_result_def)

lemma ushort_plus_int_eq:
  assumes "\<bar>d\<bar> \<le> 65535"
  shows "ushort_plus_int x d = Inr (x + word_of_int d)"
proof -
  have "0 \<le> uint x" "uint x < 65536" using uint_lt2p [of x] by simp_all
  then have "INT_MIN \<le> uint x + d" "uint x + d \<le> INT_MAX"
    unfolding INT_MIN_def INT_MAX_def using assms by linarith+
  then show ?thesis
    by (simp add: ushort_plus_int_def then_do_def int_result_ok)
qed

lemma uint_plus_int:
  assumes "0 \<le> uint x + d" and "uint x + d < 65536"
  shows "uint (x + word_of_int d :: 16 word) = uint x + d"
proof -
  have "x + word_of_int d = word_of_int (uint x + d)" by simp
  then have "uint (x + word_of_int d) = take_bit 16 (uint x + d)"
    by (simp only: uint_word_of_int_eq) simp
  also have "\<dots> = uint x + d" using assms by (intro take_bit_int_eq_self) auto
  finally show ?thesis .
qed

lemma reflect_eq:
  assumes "\<bar>dx\<bar> \<le> 65535" and "0 \<le> radius" and "radius \<le> limit" and "limit \<le> 65535"
  shows "reflect limit radius x1 dx =
     Inr (if limit - radius \<le> uint x1 \<or> uint x1 \<le> radius
          then (x1 + word_of_int (- dx), - dx) else (x1, dx))"
proof -
  have a: "int_result (limit - radius) = Inr (limit - radius)"
    using assms by (intro int_result_ok) (simp_all add: INT_MIN_def INT_MAX_def)
  have b: "int_result (- dx) = Inr (- dx)"
    using assms by (intro int_result_ok) (simp_all add: INT_MIN_def INT_MAX_def)
  have c: "ushort_plus_int x1 (- dx) = Inr (x1 + word_of_int (- dx))"
    using assms by (intro ushort_plus_int_eq) simp
  show ?thesis by (simp add: reflect_def then_do_def a b c)
qed

text \<open>What one pass through the motion statements does, velocities and radius moderate.\<close>

lemma move_ball_eq:
  assumes "\<bar>var_dx m\<bar> \<le> 65535" and "\<bar>var_dy m\<bar> \<le> 65535"
    and "0 \<le> var_radius m" and "var_radius m \<le> 480"
  shows "move_ball m =
     Inr (m\<lparr>var_x :=
              (if 640 - var_radius m \<le> uint (var_x m + word_of_int (var_dx m))
                  \<or> uint (var_x m + word_of_int (var_dx m)) \<le> var_radius m
               then var_x m else var_x m + word_of_int (var_dx m)),
            var_y :=
              (if 480 - var_radius m \<le> uint (var_y m + word_of_int (var_dy m))
                  \<or> uint (var_y m + word_of_int (var_dy m)) \<le> var_radius m
               then var_y m else var_y m + word_of_int (var_dy m)),
            var_dx :=
              (if 640 - var_radius m \<le> uint (var_x m + word_of_int (var_dx m))
                  \<or> uint (var_x m + word_of_int (var_dx m)) \<le> var_radius m
               then - var_dx m else var_dx m),
            var_dy :=
              (if 480 - var_radius m \<le> uint (var_y m + word_of_int (var_dy m))
                  \<or> uint (var_y m + word_of_int (var_dy m)) \<le> var_radius m
               then - var_dy m else var_dy m)\<rparr>)"
proof -
  have x: "ushort_plus_int (var_x m) (var_dx m) = Inr (var_x m + word_of_int (var_dx m))"
    using assms(1) by (rule ushort_plus_int_eq)
  have y: "ushort_plus_int (var_y m) (var_dy m) = Inr (var_y m + word_of_int (var_dy m))"
    using assms(2) by (rule ushort_plus_int_eq)
  have rx: "reflect 640 (var_radius m) x1 (var_dx m) =
     Inr (if 640 - var_radius m \<le> uint x1 \<or> uint x1 \<le> var_radius m
          then (x1 + word_of_int (- var_dx m), - var_dx m) else (x1, var_dx m))" for x1
    using assms by (intro reflect_eq) simp_all
  have ry: "reflect 480 (var_radius m) y1 (var_dy m) =
     Inr (if 480 - var_radius m \<le> uint y1 \<or> uint y1 \<le> var_radius m
          then (y1 + word_of_int (- var_dy m), - var_dy m) else (y1, var_dy m))" for y1
    using assms by (intro reflect_eq) simp_all
  show ?thesis
    by (simp add: move_ball_def then_do_def x y rx ry)
qed

lemma ball_inside_main_init: "ball_inside main_init"
  by (simp add: ball_inside_def main_init_def)

lemma move_ball_inside:
  assumes "ball_inside m"
  shows "\<exists>m'. move_ball m = Inr m' \<and> ball_inside m'
           \<and> var_h m' = var_h m \<and> var_s m' = var_s m \<and> var_v m' = var_v m"
proof -
  from assms have r: "var_radius m = 16" and dx: "var_dx m = 1 \<or> var_dx m = - 1"
    and dy: "var_dy m = 1 \<or> var_dy m = - 1"
    and x: "16 < uint (var_x m)" "uint (var_x m) < 624"
    and y: "16 < uint (var_y m)" "uint (var_y m) < 464"
    by (auto simp: ball_inside_def)
  have ux: "uint (var_x m + word_of_int (var_dx m)) = uint (var_x m) + var_dx m"
    using dx x by (intro uint_plus_int) auto
  have uy: "uint (var_y m + word_of_int (var_dy m)) = uint (var_y m) + var_dy m"
    using dy y by (intro uint_plus_int) auto
  have eq: "move_ball m = Inr (m\<lparr>var_x :=
              (if 640 - var_radius m \<le> uint (var_x m + word_of_int (var_dx m))
                  \<or> uint (var_x m + word_of_int (var_dx m)) \<le> var_radius m
               then var_x m else var_x m + word_of_int (var_dx m)),
            var_y :=
              (if 480 - var_radius m \<le> uint (var_y m + word_of_int (var_dy m))
                  \<or> uint (var_y m + word_of_int (var_dy m)) \<le> var_radius m
               then var_y m else var_y m + word_of_int (var_dy m)),
            var_dx :=
              (if 640 - var_radius m \<le> uint (var_x m + word_of_int (var_dx m))
                  \<or> uint (var_x m + word_of_int (var_dx m)) \<le> var_radius m
               then - var_dx m else var_dx m),
            var_dy :=
              (if 480 - var_radius m \<le> uint (var_y m + word_of_int (var_dy m))
                  \<or> uint (var_y m + word_of_int (var_dy m)) \<le> var_radius m
               then - var_dy m else var_dy m)\<rparr>)"
    using dx dy r by (intro move_ball_eq) auto
  show ?thesis
    unfolding eq ux uy r using dx dy x y
    by (auto simp: ball_inside_def r ux uy)
qed

section \<open>The loop keeps its invariant\<close>

lemma double_const_half: "double_const (1 / 2) = Finite (1 / 2)"
  by (simp add: fp_eval)

lemma double_const_360: "double_const 360 = Finite 360"
  by (simp add: fp_eval)

lemma double_const_0: "double_const 0 = Finite 0"
  by (simp add: fp_eval)

lemma advance_hue_half_step:
  assumes "k < 720"
  shows "advance_hue (Finite (real k / 2)) =
     (if k + 1 < 720 then Finite (real (k + 1) / 2) else Finite 0)"
proof -
  have s: "real k / 2 + 1 / 2 = real_of_int (int k + 1) / 2" by simp
  have "\<bar>int k + 1\<bar> < 2 ^ 53" using assms by simp
  then have d: "double_round (real_of_int (int k + 1) / 2) = Finite (real_of_int (int k + 1) / 2)"
    by (rule double_round_half)
  have "\<bar>int k + 1\<bar> < 2 ^ 24" using assms by simp
  then have "is_float (real_of_int (int k + 1) / 2)" by (rule is_float_half)
  then have f: "float_round (real_of_int (int k + 1) / 2) = Finite (real_of_int (int k + 1) / 2)"
    by (simp add: is_float_def)
  have z: "float_round 0 = Finite 0" using is_float_0 by (simp add: is_float_def)
  have "advance_hue (Finite (real k / 2)) =
      (if fp_ge (Finite (real_of_int (int k + 1) / 2)) (Finite 360) then Finite 0
       else Finite (real_of_int (int k + 1) / 2))"
    unfolding advance_hue_def double_const_half double_const_360 double_const_0
    by (simp only: fp_add.simps s d double_to_float.simps f z Let_def)
  also have "\<dots> = (if k + 1 < 720 then Finite (real (k + 1) / 2) else Finite 0)"
    by (auto simp: fp_ge_def)
  finally show ?thesis .
qed

lemma half_step_hue_advance:
  assumes "half_step_hue h"
  shows "half_step_hue (advance_hue h)"
proof -
  from assms obtain k where k: "h = Finite (real k / 2)" "k < 720"
    by (cases h) (auto simp: half_step_hue_def)
  have z: "half_step_hue (Finite 0)"
    unfolding half_step_hue_def by (simp add: image_iff)
  have n: "half_step_hue (Finite (real (k + 1) / 2))" if "k + 1 < 720"
    unfolding half_step_hue_def using that by (simp only: fp.case) (rule imageI, simp)
  show ?thesis
    unfolding k(1) advance_hue_half_step [OF k(2)] using z n by (cases "k + 1 < 720") simp_all
qed

lemma unit_fp_main_s0: "unit_fp main_s0"
  by (simp add: main_s0_eq unit_fp_1)

lemma unit_fp_main_v0: "unit_fp main_v0"
  by (simp add: main_v0_eq unit_fp_def is_float_def fp_eval)

lemma hsv_to_rgb_half_step:
  assumes "half_step_hue h"
  shows "\<exists>r g b. hsv_to_rgb h main_s0 main_v0 = Some (Inr (r, g, b))"
proof -
  from assms obtain k where k: "h = Finite (real k / 2)" "k < 720"
    by (cases h) (auto simp: half_step_hue_def)
  have "\<bar>int k\<bar> < 2 ^ 24" using k(2) by simp
  then have "is_float (real_of_int (int k) / 2)" by (rule is_float_half)
  then have fl: "is_float (real k / 2)" by simp
  have rng: "0 \<le> real k / 2" "real k / 2 < 360" using k(2) by simp_all
  have n: "normalise_hue (Finite (real k / 2)) = Some (Finite (real k / 2))"
    using fl rng by (rule normalise_hue_in_range)
  have "real k / 2 \<le> 360" using rng by simp
  from hsv_sector_total [OF fl rng(1) this unit_fp_main_s0 unit_fp_main_v0]
  show ?thesis unfolding k(1) hsv_to_rgb_def n by auto
qed

lemma main_inv_main_init: "main_inv main_init"
proof -
  have "half_step_hue (Finite 0)"
    unfolding half_step_hue_def by (simp add: image_iff)
  then have "half_step_hue main_h0" by (simp add: main_h0_eq)
  then show ?thesis
    using ball_inside_main_init by (simp add: main_inv_def main_init_def)
qed

lemma loop_body_inv:
  assumes "main_inv m"
  shows "\<exists>m' w'. loop_body drv m w = Some (Inr m', w') \<and> main_inv m'"
proof -
  from assms have h: "half_step_hue (var_h m)" and s: "var_s m = main_s0"
    and v: "var_v m = main_v0" and b: "ball_inside m"
    by (simp_all add: main_inv_def)
  from hsv_to_rgb_half_step [OF h] obtain r g bl
    where c: "hsv_to_rgb (var_h m) (var_s m) (var_v m) = Some (Inr (r, g, bl))"
    unfolding s v by blast
  define m1 where "m1 = m\<lparr>var_h := advance_hue (var_h m)\<rparr>"
  have "ball_inside m1" using b by (simp add: m1_def ball_inside_def)
  from move_ball_inside [OF this] obtain m2
    where m2: "move_ball m1 = Inr m2" "ball_inside m2" "var_h m2 = var_h m1"
      "var_s m2 = var_s m1" "var_v m2 = var_v m1" by blast
  have "main_inv m2"
    using m2 h s v half_step_hue_advance [OF h] by (simp add: main_inv_def m1_def)
  moreover have "\<exists>w'. loop_body drv m w = Some (Inr m2, w')"
    unfolding loop_body_def c using m2(1) by (simp add: Let_def m1_def [symmetric])
  ultimately show ?thesis by blast
qed

lemma iterations_inv:
  assumes "main_inv m"
  shows "\<exists>m' w'. iterations drv n m w = Some (Inr m', w') \<and> main_inv m'"
  using assms
proof (induction n arbitrary: m w)
  case 0
  then show ?case by simp
next
  case (Suc n)
  from loop_body_inv [OF Suc.prems] obtain m1 w1
    where a: "loop_body drv m w = Some (Inr m1, w1)" "main_inv m1" by blast
  from Suc.IH [OF a(2)] obtain m' w' where "iterations drv n m1 w1 = Some (Inr m', w')"
    "main_inv m'" by blast
  then show ?case using a(1) by simp
qed

lemma uint_shift_out:
  assumes "uint x < 1024"
  shows "uint (shift_out x) = 64 * uint x"
proof -
  have "uint (shift_out x) = take_bit 16 (push_bit 6 (uint x))"
    by (simp only: shift_out_def uint_word_of_int_eq) simp
  also have "\<dots> = push_bit 6 (uint x)"
    using assms by (intro take_bit_int_eq_self) (simp_all add: push_bit_eq_mult)
  finally show ?thesis by (simp add: push_bit_eq_mult)
qed

section \<open>Device operations, the uninitialised coordinate, the scaled outputs\<close>

text \<open>The four device operations when the control call fails, and when it succeeds.\<close>

lemma ioctl_calls:
  "ioctls (snd (snd (ioctl drv req arg w))) = ioctls w @ [(req, arg)]"
  "stderr (snd (snd (ioctl drv req arg w))) = stderr w"
  "stdout (snd (snd (ioctl drv req arg w))) = stdout w"
  "fst (ioctl drv req arg w) = fst (drv (driver w) req arg)"
  by (auto simp: ioctl_def split: prod.splits)

lemma set_background_color_effect:
  "ioctls (set_background_color drv c w) = ioctls w @ [(VGA_BALL_WRITE_BACKGROUND, Background c)]"
  "stdout (set_background_color drv c w) = stdout w"
  "stderr (set_background_color drv c w) =
     (if fst (drv (driver w) VGA_BALL_WRITE_BACKGROUND (Background c)) \<noteq> 0
      then stderr w @ [''ioctl(VGA_BALL_SET_BACKGROUND) failed''] else stderr w)"
  by (auto simp: set_background_color_def ioctl_def perror_def split: prod.splits)

lemma set_position_effect:
  "ioctls (set_position drv p w) = ioctls w @ [(VGA_BALL_WRITE_POSITION, Position p)]"
  "stdout (set_position drv p w) = stdout w"
  "stderr (set_position drv p w) =
     (if fst (drv (driver w) VGA_BALL_WRITE_POSITION (Position p)) \<noteq> 0
      then stderr w @ [''ioctl(VGA_BALL_SET_POSITION) failed''] else stderr w)"
  by (auto simp: set_position_def ioctl_def perror_def split: prod.splits)

lemma print_position_effect:
  "ioctls (print_position drv w) = ioctls w @ [(VGA_BALL_READ_POSITION, Indeterminate)]"
  "stderr (print_position drv w) =
     (if fst (drv (driver w) VGA_BALL_READ_POSITION Indeterminate) \<noteq> 0
      then stderr w @ [''ioctl(VGA_BALL_READ_POSITION) failed''] else stderr w)"
  "stdout (print_position drv w) =
     (if fst (drv (driver w) VGA_BALL_READ_POSITION Indeterminate) \<noteq> 0
      then stdout w
      else stdout w @ [Position_line (fst (snd (drv (driver w) VGA_BALL_READ_POSITION Indeterminate)))])"
  by (auto simp: print_position_def ioctl_def perror_def printf_def split: prod.splits)

lemma print_background_color_effect:
  "ioctls (print_background_color drv w) = ioctls w @ [(VGA_BALL_READ_BACKGROUND, Indeterminate)]"
  "stderr (print_background_color drv w) =
     (if fst (drv (driver w) VGA_BALL_READ_BACKGROUND Indeterminate) \<noteq> 0
      then stderr w @ [''ioctl(VGA_BALL_READ_BACKGROUND) failed''] else stderr w)"
  "stdout (print_background_color drv w) =
     (if fst (drv (driver w) VGA_BALL_READ_BACKGROUND Indeterminate) \<noteq> 0
      then stdout w
      else stdout w @ [Background_line (fst (snd (drv (driver w) VGA_BALL_READ_BACKGROUND Indeterminate)))])"
  by (auto simp: print_background_color_def ioctl_def perror_def printf_def split: prod.splits)

text \<open>The variables after an iteration do not depend on the driver or on the world.\<close>

lemma loop_body_vars:
  "map_option fst (loop_body drv m w) =
     (case hsv_to_rgb (var_h m) (var_s m) (var_v m) of
        None \<Rightarrow> None
      | Some (Inl e) \<Rightarrow> Some (Inl e)
      | Some (Inr c) \<Rightarrow> Some (move_ball (m\<lparr>var_h := advance_hue (var_h m)\<rparr>)))"
  by (simp add: loop_body_def Let_def split: option.splits sum.splits prod.splits)

lemma loop_body_calls:
  assumes "loop_body drv m w = Some (Inr m', w')"
  shows "\<exists>r g b. hsv_to_rgb (var_h m) (var_s m) (var_v m) = Some (Inr (r, g, b))
     \<and> ioctls w' = ioctls w @
         [(VGA_BALL_WRITE_BACKGROUND, Background (color_of r g b)),
          (VGA_BALL_WRITE_POSITION, Position (position_of (var_x m') (var_y m'))),
          (VGA_BALL_READ_POSITION, Indeterminate)]"
  using assms
  by (auto simp: loop_body_def Let_def set_background_color_effect set_position_effect
      print_position_effect printf_def split: option.splits sum.splits prod.splits)

lemma hsv_to_rgb_main_init: "hsv_to_rgb main_h0 main_s0 main_v0 = Some (Inr (76, 0, 0))"
  by (simp add: hsv_to_rgb_def main_h0_eq main_s0_eq main_v0_eq normalise_hue_0 hsv_eval)

lemma hsv_to_rgb_sw_init: "hsv_to_rgb (Finite 0) (Finite 1) (Finite 1) = Some (Inr (255, 0, 0))"
  by (simp add: hsv_to_rgb_def normalise_hue_0 hsv_sector_0)

lemma sw_init_eq:
  "sw_init = \<lparr>sw_h = Finite 0, sw_s = Finite 1, sw_v = Finite 1,
      sw_x = Some (Finite (13421773 / 67108864)), sw_y = None,
      sw_dx = Finite (5368709 / 536870912), sw_dy = Finite (5368709 / 536870912)\<rparr>"
  by (simp add: sw_init_def fp_eval)

lemma sw_move_ball_uninitialised: "sw_y m = None \<Longrightarrow> sw_x m \<noteq> None \<Longrightarrow> sw_move_ball m = Inl Uninitialised_read"
  by (auto simp: sw_move_ball_def read_var_def then_do_def)

text \<open>The scaled output of the normalised-space variant.\<close>

lemma scale_out_unit:
  assumes "is_float a" and "0 \<le> a" and "a \<le> 1" and "0 \<le> k" and "k \<le> 65535"
  shows "scale_out k (Finite a) = Inr (word_of_int (trunc (near32 (a * of_int k))))"
    and "uint (word_of_int (trunc (near32 (a * of_int k))) :: 16 word) = trunc (near32 (a * of_int k))"
    and "0 \<le> trunc (near32 (a * of_int k))" and "trunc (near32 (a * of_int k)) \<le> k"
proof -
  have "\<bar>k\<bar> \<le> 2 ^ 24" using assms(4,5) by simp
  then have fk: "is_float (of_int k)" and ik: "int_to_float k = Finite (of_int k)"
    by (simp_all add: is_float_of_int int_to_float_small)
  have "0 \<le> a * of_int k" using assms by simp
  moreover have "a * of_int k \<le> of_int k" using assms by (simp add: mult_left_le_one_le)
  ultimately obtain y where y: "float_round (a * of_int k) = Finite y" "0 \<le> y" "y \<le> of_int k"
    using float_round_between [OF is_float_0 fk, of "a * of_int k"] by blast
  have yn: "y = near32 (a * of_int k)" using y(1) by (rule float_round_Finite)
  have "trunc 0 \<le> trunc y" using y(2) by (rule trunc_mono)
  then have t0: "0 \<le> trunc y" by (simp add: trunc_def)
  have "trunc y \<le> trunc (of_int k)" using y(3) by (rule trunc_mono)
  then have tk: "trunc y \<le> k" by (simp only: trunc_of_int)
  show "0 \<le> trunc (near32 (a * of_int k))" "trunc (near32 (a * of_int k)) \<le> k"
    using t0 tk by (simp_all add: yn)
  show "scale_out k (Finite a) = Inr (word_of_int (trunc (near32 (a * of_int k))))"
    using t0 tk assms(5) y(1)
    by (simp add: scale_out_def ik float_to_ushort_def float_to_integer_def then_do_def yn)
  have "uint (word_of_int (trunc y) :: 16 word) = take_bit 16 (trunc y)"
    by (simp only: uint_word_of_int_eq) simp
  also have "\<dots> = trunc y" using t0 tk assms(5) by (intro take_bit_int_eq_self) auto
  finally show "uint (word_of_int (trunc (near32 (a * of_int k))) :: 16 word)
      = trunc (near32 (a * of_int k))"
    by (simp add: yn)
qed

lemma scale_out_mono:
  assumes "is_float a" and "is_float b" and "0 \<le> a" and "a \<le> b" and "b \<le> 1"
    and "0 \<le> k" and "k \<le> 65535"
  shows "\<exists>p q. scale_out k (Finite a) = Inr p \<and> scale_out k (Finite b) = Inr q \<and> p \<le> q
           \<and> uint p = trunc (near32 (a * of_int k)) \<and> uint q \<le> k"
proof -
  have a1: "a \<le> 1" and b0: "0 \<le> b" using assms by simp_all
  note A = scale_out_unit [OF assms(1,3) a1 assms(6,7)]
  note B = scale_out_unit [OF assms(2) b0 assms(5,6,7)]
  have "a * of_int k \<le> b * of_int k" using assms by (simp add: mult_right_mono)
  then have "near32 (a * of_int k) \<le> near32 (b * of_int k)" by (intro nearest_mono) simp
  then have "trunc (near32 (a * of_int k)) \<le> trunc (near32 (b * of_int k))" by (rule trunc_mono)
  then have "(word_of_int (trunc (near32 (a * of_int k))) :: 16 word)
      \<le> word_of_int (trunc (near32 (b * of_int k)))"
    by (simp only: word_le_def A(2) B(2))
  then show ?thesis using A B by auto
qed

lemma shift_out_mono:
  assumes "x \<le> x'" and "uint x' < 1024"
  shows "shift_out x \<le> shift_out x'"
proof -
  have le: "uint x \<le> uint x'" using assms(1) by (simp add: word_le_def)
  then have "uint x < 1024" using assms(2) by simp
  then show ?thesis
    using le assms(2) by (simp add: word_le_def uint_shift_out)
qed

section \<open>The conversion around the sector boundaries\<close>

lemma hsv_to_rgb_in_range:
  assumes "is_float h" and "0 \<le> h" and "h < 360"
  shows "hsv_to_rgb (Finite h) s v = Some (hsv_sector (Finite h) s v)"
  using assms by (simp add: hsv_to_rgb_def normalise_hue_in_range)

lemma hsv_to_rgb_full:
  assumes "is_float h" and "0 \<le> h" and "h < 360"
  shows "\<exists>r g b. hsv_to_rgb (Finite h) (Finite 1) (Finite 1) = Some (Inr (r, g, b))
           \<and> (r = 0 \<or> g = 0 \<or> b = 0) \<and> (r = 255 \<or> g = 255 \<or> b = 255)
           \<and> 0 \<le> r \<and> r \<le> 255 \<and> 0 \<le> g \<and> g \<le> 255 \<and> 0 \<le> b \<and> b \<le> 255"
proof -
  have "h \<le> 360" using assms(3) by simp
  from hsv_sector_full [OF assms(1,2) this] show ?thesis
    unfolding hsv_to_rgb_in_range [OF assms] by simp
qed

lemma sector_at_boundary:
  assumes "\<bar>k\<bar> \<le> 2 ^ 24"
  shows "float_to_int (fdiv (Finite (60 * of_int k)) (int_to_float 60)) = Inr k"
proof -
  have "is_float (of_int k)" using assms by (rule is_float_of_int)
  then have "fdiv (Finite (60 * of_int k)) (int_to_float 60) = Finite (of_int k)"
    by (simp add: int_to_float_60 is_float_def)
  moreover have "\<bar>real_of_int k\<bar> \<le> 2 ^ 24"
    using assms by (metis of_int_abs of_int_le_iff of_int_numeral of_int_power)
  ultimately show ?thesis by (simp add: float_to_int_small trunc_of_int)
qed

lemma float_literals:
  "float_literal (599 / 10) = Finite (7851213 / 131072)"
  "float_literal (1199 / 10) = Finite (15715533 / 131072)"
  "float_literal (1799 / 10) = Finite (5894963 / 32768)"
  "float_literal (2399 / 10) = Finite (7861043 / 32768)"
  "float_literal (2999 / 10) = Finite (9827123 / 32768)"
  "float_literal (3599 / 10) = Finite (11793203 / 32768)"
  "float_literal 0 = Finite 0"
  "float_literal 60 = Finite 60"
  "float_literal 120 = Finite 120"
  "float_literal 180 = Finite 180"
  "float_literal 240 = Finite 240"
  "float_literal 300 = Finite 300"
  by (simp_all add: float_literal_def fp_eval)

lemma is_float_literals:
  "is_float (7851213 / 131072)"
  "is_float (15715533 / 131072)"
  "is_float (5894963 / 32768)"
  "is_float (7861043 / 32768)"
  "is_float (9827123 / 32768)"
  "is_float (11793203 / 32768)"
  "is_float 60" "is_float 120" "is_float 180" "is_float 240" "is_float 300"
  by (simp_all add: is_float_def fp_eval)

lemma hsv_sector_below_boundaries:
  "hsv_sector (Finite (15715533 / 131072)) (Finite 1) (Finite 1) = Inr (0, 255, 0)"
  "hsv_sector (Finite (5894963 / 32768)) (Finite 1) (Finite 1) = Inr (0, 255, 254)"
  "hsv_sector (Finite (7861043 / 32768)) (Finite 1) (Finite 1) = Inr (0, 0, 255)"
  "hsv_sector (Finite (9827123 / 32768)) (Finite 1) (Finite 1) = Inr (254, 0, 255)"
  "hsv_sector (Finite (11793203 / 32768)) (Finite 1) (Finite 1) = Inr (255, 0, 0)"
  by (simp_all add: hsv_eval int_to_float_def)

lemma hsv_sector_at_boundaries:
  "hsv_sector (Finite 120) (Finite 1) (Finite 1) = Inr (0, 255, 0)"
  "hsv_sector (Finite 180) (Finite 1) (Finite 1) = Inr (0, 255, 255)"
  "hsv_sector (Finite 240) (Finite 1) (Finite 1) = Inr (0, 0, 255)"
  "hsv_sector (Finite 300) (Finite 1) (Finite 1) = Inr (255, 0, 255)"
  by (simp_all add: hsv_eval int_to_float_def)

lemma hsv_to_rgb_boundary_pairs:
  "hsv_to_rgb (float_literal (599 / 10)) (Finite 1) (Finite 1) = Some (Inr (255, 254, 0))"
  "hsv_to_rgb (float_literal 60) (Finite 1) (Finite 1) = Some (Inr (255, 255, 0))"
  "hsv_to_rgb (float_literal (1199 / 10)) (Finite 1) (Finite 1) = Some (Inr (0, 255, 0))"
  "hsv_to_rgb (float_literal 120) (Finite 1) (Finite 1) = Some (Inr (0, 255, 0))"
  "hsv_to_rgb (float_literal (1799 / 10)) (Finite 1) (Finite 1) = Some (Inr (0, 255, 254))"
  "hsv_to_rgb (float_literal 180) (Finite 1) (Finite 1) = Some (Inr (0, 255, 255))"
  "hsv_to_rgb (float_literal (2399 / 10)) (Finite 1) (Finite 1) = Some (Inr (0, 0, 255))"
  "hsv_to_rgb (float_literal 240) (Finite 1) (Finite 1) = Some (Inr (0, 0, 255))"
  "hsv_to_rgb (float_literal (2999 / 10)) (Finite 1) (Finite 1) = Some (Inr (254, 0, 255))"
  "hsv_to_rgb (float_literal 300) (Finite 1) (Finite 1) = Some (Inr (255, 0, 255))"
  "hsv_to_rgb (float_literal (3599 / 10)) (Finite 1) (Finite 1) = Some (Inr (255, 0, 0))"
  "hsv_to_rgb (float_literal 0) (Finite 1) (Finite 1) = Some (Inr (255, 0, 0))"
  by (simp_all add: float_literals hsv_to_rgb_in_range is_float_literals is_float_0
      hsv_sector_59_9 hsv_sector_60 hsv_sector_0 hsv_sector_below_boundaries
      hsv_sector_at_boundaries)

section \<open>Channels next to a sector boundary\<close>

lemma fmul_one_left: "is_float x \<Longrightarrow> fmul (Finite 1) (Finite x) = Finite x"
  by (simp add: is_float_def)

lemma fsub_one_between:
  assumes "is_float a" and "is_float b" and "a \<le> 1 - f" and "1 - f \<le> b"
  shows "\<exists>u. fsub (int_to_float 1) (Finite f) = Finite u \<and> is_float u \<and> a \<le> u \<and> u \<le> b"
  unfolding int_to_float_1 fsub_Finite using assms by (rule float_round_between)

lemma channel_between:
  assumes "is_float L" and "is_float H" and "L \<le> x * 255" and "x * 255 \<le> H"
    and "\<bar>L\<bar> \<le> 2 ^ 24" and "\<bar>H\<bar> \<le> 2 ^ 24"
  shows "\<exists>n. channel (Finite x) = Inr n \<and> trunc L \<le> n \<and> n \<le> trunc H"
proof -
  from float_round_between [OF assms(1-4)] obtain y
    where y: "float_round (x * 255) = Finite y" "L \<le> y" "y \<le> H" by blast
  have "\<bar>y\<bar> \<le> 2 ^ 24" using y(2,3) assms(5,6) by linarith
  then have "float_to_int (Finite y) = Inr (trunc y)" by (rule float_to_int_small)
  moreover have "trunc L \<le> trunc y" "trunc y \<le> trunc H" using y(2,3) by (simp_all add: trunc_mono)
  ultimately show ?thesis by (simp add: channel_def int_to_float_255 y(1))
qed

lemma is_float_fractions:
  "is_float (257 / 65536)" "is_float (65279 / 65536)" "is_float 254"
  "is_float (65535 / 65536)"
  by (simp_all add: is_float_def fp_eval)

text \<open>
  The channels of q and t (saturation and value 1) for a fraction near 1 and for a
  fraction near 0.
\<close>

lemma channels_fraction_high:
  assumes "is_float f" and "65279 / 65536 \<le> f" and "f \<le> 1"
  shows "channel (fmul (Finite 1) (fsub (int_to_float 1) (fmul (Finite 1) (Finite f)))) = Inr 0"
    and "\<exists>ct. channel (fmul (Finite 1) (fsub (int_to_float 1)
            (fmul (Finite 1) (fsub (int_to_float 1) (Finite f))))) = Inr ct \<and> 254 \<le> ct \<and> ct \<le> 255"
proof -
  from fsub_one_between [OF is_float_0 is_float_fractions(1), of f] assms obtain u
    where u: "fsub (int_to_float 1) (Finite f) = Finite u" "is_float u" "0 \<le> u" "u \<le> 257 / 65536"
    by auto
  from fsub_one_between [OF is_float_fractions(2) is_float_1, of u] u obtain w
    where w: "fsub (int_to_float 1) (Finite u) = Finite w" "is_float w" "65279 / 65536 \<le> w" "w \<le> 1"
    by auto
  have q: "fmul (Finite 1) (fsub (int_to_float 1) (fmul (Finite 1) (Finite f))) = Finite u"
    by (simp only: fmul_one_left [OF assms(1)] u(1) fmul_one_left [OF u(2)])
  have t: "fmul (Finite 1) (fsub (int_to_float 1) (fmul (Finite 1) (fsub (int_to_float 1) (Finite f))))
      = Finite w"
    by (simp only: u(1) fmul_one_left [OF u(2)] w(1) fmul_one_left [OF w(2)])
  from channel_between [OF is_float_0 is_float_fractions(4), of u] u(3,4)
  obtain n where "channel (Finite u) = Inr n" "trunc 0 \<le> n" "n \<le> trunc (65535 / 65536)" by auto
  then have "channel (Finite u) = Inr 0" by (simp add: trunc_def)
  then show "channel (fmul (Finite 1) (fsub (int_to_float 1) (fmul (Finite 1) (Finite f)))) = Inr 0"
    by (simp only: q)
  from channel_between [OF is_float_fractions(3) is_float_255, of w] w(3,4)
  obtain n' where "channel (Finite w) = Inr n'" "trunc 254 \<le> n'" "n' \<le> trunc 255"
    by auto
  then have "channel (Finite w) = Inr n' \<and> 254 \<le> n' \<and> n' \<le> 255" by (simp add: trunc_def)
  then show "\<exists>ct. channel (fmul (Finite 1) (fsub (int_to_float 1)
            (fmul (Finite 1) (fsub (int_to_float 1) (Finite f))))) = Inr ct \<and> 254 \<le> ct \<and> ct \<le> 255"
    unfolding t by blast
qed

lemma channels_fraction_low:
  assumes "is_float f" and "0 \<le> f" and "f \<le> 257 / 65536"
  shows "\<exists>cq. channel (fmul (Finite 1) (fsub (int_to_float 1) (fmul (Finite 1) (Finite f))))
            = Inr cq \<and> 254 \<le> cq \<and> cq \<le> 255"
    and "channel (fmul (Finite 1) (fsub (int_to_float 1)
            (fmul (Finite 1) (fsub (int_to_float 1) (Finite f))))) = Inr 0"
proof -
  from fsub_one_between [OF is_float_fractions(2) is_float_1, of f] assms obtain u
    where u: "fsub (int_to_float 1) (Finite f) = Finite u" "is_float u" "65279 / 65536 \<le> u" "u \<le> 1"
    by auto
  from fsub_one_between [OF is_float_0 is_float_fractions(1), of u] u obtain w
    where w: "fsub (int_to_float 1) (Finite u) = Finite w" "is_float w" "0 \<le> w" "w \<le> 257 / 65536"
    by auto
  have q: "fmul (Finite 1) (fsub (int_to_float 1) (fmul (Finite 1) (Finite f))) = Finite u"
    by (simp only: fmul_one_left [OF assms(1)] u(1) fmul_one_left [OF u(2)])
  have t: "fmul (Finite 1) (fsub (int_to_float 1) (fmul (Finite 1) (fsub (int_to_float 1) (Finite f))))
      = Finite w"
    by (simp only: u(1) fmul_one_left [OF u(2)] w(1) fmul_one_left [OF w(2)])
  from channel_between [OF is_float_0 is_float_fractions(4), of w] w(3,4)
  obtain n where "channel (Finite w) = Inr n" "trunc 0 \<le> n" "n \<le> trunc (65535 / 65536)" by auto
  then have "channel (Finite w) = Inr 0" by (simp add: trunc_def)
  then show "channel (fmul (Finite 1) (fsub (int_to_float 1)
            (fmul (Finite 1) (fsub (int_to_float 1) (Finite f))))) = Inr 0"
    by (simp only: t)
  from channel_between [OF is_float_fractions(3) is_float_255, of u] u(3,4)
  obtain n' where "channel (Finite u) = Inr n'" "trunc 254 \<le> n'" "n' \<le> trunc 255"
    by auto
  then have "channel (Finite u) = Inr n' \<and> 254 \<le> n' \<and> n' \<le> 255" by (simp add: trunc_def)
  then show "\<exists>cq. channel (fmul (Finite 1) (fsub (int_to_float 1) (fmul (Finite 1) (Finite f))))
            = Inr cq \<and> 254 \<le> cq \<and> cq \<le> 255"
    unfolding q by blast
qed

text \<open>The colour is the selection, by the sector, among the channels of v, p, q and t.\<close>

lemma hsv_sector_select:
  assumes "float_to_int (fdiv h (int_to_float 60)) = Inr i"
    and "channel v = Inr cv"
    and "channel (fmul v (fsub (int_to_float 1) s)) = Inr cp"
    and "channel (fmul v (fsub (int_to_float 1)
           (fmul s (fsub (fdiv h (int_to_float 60)) (int_to_float i))))) = Inr cq"
    and "channel (fmul v (fsub (int_to_float 1) (fmul s (fsub (int_to_float 1)
           (fsub (fdiv h (int_to_float 60)) (int_to_float i)))))) = Inr ct"
  shows "hsv_sector h s v = Inr (sector_select i cv cp cq ct)"
  using assms by (auto simp: hsv_sector_def sector_select_def then_do_def Let_def)

lemma channel_p_full: "channel (fmul (Finite 1) (fsub (int_to_float 1) (Finite 1))) = Inr 0"
  by (simp only: fsub_one_one fmul_one_left [OF is_float_0] channel_0)

section \<open>The conversion is continuous across the sector boundaries\<close>

lemma sector_high_side:
  assumes "is_float h" and "0 \<le> k" and "k \<le> 5"
    and "60 * of_int k \<le> h" and "h \<le> 60 * of_int k + 147 / 625"
  shows "float_to_int (fdiv (Finite h) (int_to_float 60)) = Inr k"
    and "\<exists>f. fsub (fdiv (Finite h) (int_to_float 60)) (int_to_float k) = Finite f
           \<and> is_float f \<and> 0 \<le> f \<and> f \<le> 257 / 65536"
proof -
  have k24: "\<bar>k\<bar> \<le> 2 ^ 24" using assms(2,3) by simp
  have fk: "is_float (of_int k)" using k24 by (rule is_float_of_int)
  have "\<bar>65536 * k + 257\<bar> < 2 ^ 24" using assms(2,3) by simp
  then have "is_float (of_int (65536 * k + 257) * 2 powi (- 16))" by (rule is_float_dyadic) simp_all
  moreover have "real_of_int (65536 * k + 257) * 2 powi (- 16) = of_int k + 257 / 65536"
    by (simp add: field_simps)
  ultimately have fk1: "is_float (of_int k + 257 / 65536)" by (simp only:)
  have "of_int k \<le> h / 60" "h / 60 \<le> of_int k + 257 / 65536" using assms(4,5) by simp_all
  from float_round_between [OF fk fk1 this] obtain d
    where d: "float_round (h / 60) = Finite d" "is_float d" "of_int k \<le> d" "d \<le> of_int k + 257 / 65536"
    by blast
  have fd: "fdiv (Finite h) (int_to_float 60) = Finite d" by (simp add: int_to_float_60 d(1))
  have "0 \<le> d" "d \<le> 6" using d(3,4) assms(2,3) by linarith+
  then have "\<bar>d\<bar> \<le> 2 ^ 24" by simp
  then have i: "float_to_int (Finite d) = Inr (trunc d)" by (rule float_to_int_small)
  have "\<lfloor>d\<rfloor> = k" using d(3,4) by linarith
  then have t: "trunc d = k" using \<open>0 \<le> d\<close> by (simp add: trunc_def)
  show "float_to_int (fdiv (Finite h) (int_to_float 60)) = Inr k" by (simp add: fd i t)
  have "0 \<le> d - of_int k" "d - of_int k \<le> 257 / 65536" using d(3,4) by simp_all
  from float_round_between [OF is_float_0 is_float_fractions(1) this]
  show "\<exists>f. fsub (fdiv (Finite h) (int_to_float 60)) (int_to_float k) = Finite f
           \<and> is_float f \<and> 0 \<le> f \<and> f \<le> 257 / 65536"
    by (simp add: fd int_to_float_small [OF k24] fsub_Finite)
qed

lemma sector_low_side_rounded:
  assumes "is_float h" and "1 \<le> k" and "k \<le> 6"
    and "of_int k - 257 / 65536 \<le> h / 60" and "h / 60 \<le> z"
    and "float_round z = Finite v" and "v < of_int k" and "h \<le> 360"
  shows "float_to_int (fdiv (Finite h) (int_to_float 60)) = Inr (k - 1)"
    and "\<exists>f. fsub (fdiv (Finite h) (int_to_float 60)) (int_to_float (k - 1)) = Finite f
           \<and> is_float f \<and> 65279 / 65536 \<le> f \<and> f \<le> 1"
proof -
  have k24: "\<bar>k - 1\<bar> \<le> 2 ^ 24" using assms(2,3) by simp
  have "\<bar>65536 * k - 257\<bar> < 2 ^ 24" using assms(2,3) by simp
  then have "is_float (of_int (65536 * k - 257) * 2 powi (- 16))" by (rule is_float_dyadic) simp_all
  moreover have "real_of_int (65536 * k - 257) * 2 powi (- 16) = of_int k - 257 / 65536"
    by (simp add: field_simps)
  ultimately have fk1: "is_float (of_int k - 257 / 65536)" by (simp only:)
  have fv: "is_float v" and vn: "v = near32 z" using assms(6) by (rule float_round_Finite)+
  have "h / 60 \<le> 6" using assms(8) by simp
  from float_round_between [OF fk1 is_float_6 assms(4) this] obtain d
    where d0: "float_round (h / 60) = Finite d" "is_float d" "of_int k - 257 / 65536 \<le> d"
    by blast
  have "d = near32 (h / 60)" using d0(1) by (rule float_round_Finite)
  moreover have "near32 (h / 60) \<le> near32 z" using assms(5) by (intro nearest_mono) simp
  ultimately have "d \<le> v" using vn by simp
  note d = d0 this
  have fd: "fdiv (Finite h) (int_to_float 60) = Finite d" by (simp add: int_to_float_60 d(1))
  have dk: "d < of_int k" using d(4) assms(7) by linarith
  have "0 \<le> d" "d \<le> 6" using d(3) dk assms(2,3) by linarith+
  then have "\<bar>d\<bar> \<le> 2 ^ 24" by simp
  then have i: "float_to_int (Finite d) = Inr (trunc d)" by (rule float_to_int_small)
  have "\<lfloor>d\<rfloor> = k - 1" using d(3) dk by linarith
  then have t: "trunc d = k - 1" using \<open>0 \<le> d\<close> by (simp add: trunc_def)
  show "float_to_int (fdiv (Finite h) (int_to_float 60)) = Inr (k - 1)" by (simp add: fd i t)
  have "65279 / 65536 \<le> d - of_int (k - 1)" "d - of_int (k - 1) \<le> 1" using d(3) dk by simp_all
  from float_round_between [OF is_float_fractions(2) is_float_1 this]
  show "\<exists>f. fsub (fdiv (Finite h) (int_to_float 60)) (int_to_float (k - 1)) = Finite f
           \<and> is_float f \<and> 65279 / 65536 \<le> f \<and> f \<le> 1"
    by (simp only: fd int_to_float_small [OF k24] fsub_Finite)
qed

text \<open>
  A \<^verbatim>\<open>float\<close> hue below \<open>60 * k\<close> is at least one step of its binade below, and its
  quotient by 60 is rounded below \<open>k\<close>.
\<close>

lemma quotient_below_boundary:
  assumes "is_float h" and "k \<in> {1, 2, 3, 4, 5, 6}"
    and "60 * of_int k - 147 / 625 \<le> h" and "h < 60 * of_int k"
  shows "\<exists>z v. h / 60 \<le> z \<and> float_round z = Finite v \<and> v < of_int k"
proof -
  have step: "\<exists>z v. h / 60 \<le> z \<and> float_round z = Finite v \<and> v < of_int k"
    if "2 powi e \<le> h" and "h < real_of_int M * 2 powi (e - 23)"
      and "real_of_int M * 2 powi (e - 23) \<le> 2 powi (e + 1)" and "- 126 \<le> e"
      and "float_round (real_of_int (M - 1) * 2 powi (e - 23) / 60) = Finite v" and "v < of_int k"
    for e M v
  proof -
    have "h \<le> of_int (M - 1) * 2 powi (e - 23)"
      using assms(1) that(1-4) by (rule is_float_below)
    then have "h / 60 \<le> of_int (M - 1) * 2 powi (e - 23) / 60" by simp
    with that(5,6) show ?thesis by blast
  qed
  from assms(2) consider "k = 1" | "k = 2" | "k = 3" | "k = 4" | "k = 5" | "k = 6" by auto
  then show ?thesis
  proof cases
    case 1
    show ?thesis
      by (rule step [of 5 15728640 "16777215 / 16777216"])
        (use assms(3,4) 1 in \<open>simp_all add: fp_eval\<close>)
  next
    case 2
    show ?thesis
      by (rule step [of 6 15728640 "16777215 / 8388608"])
        (use assms(3,4) 2 in \<open>simp_all add: fp_eval\<close>)
  next
    case 3
    show ?thesis
      by (rule step [of 7 11796480 "12582911 / 4194304"])
        (use assms(3,4) 3 in \<open>simp_all add: fp_eval\<close>)
  next
    case 4
    show ?thesis
      by (rule step [of 7 15728640 "16777215 / 4194304"])
        (use assms(3,4) 4 in \<open>simp_all add: fp_eval\<close>)
  next
    case 5
    show ?thesis
      by (rule step [of 8 9830400 "10485759 / 2097152"])
        (use assms(3,4) 5 in \<open>simp_all add: fp_eval\<close>)
  next
    case 6
    show ?thesis
      by (rule step [of 8 11796480 "12582911 / 2097152"])
        (use assms(3,4) 6 in \<open>simp_all add: fp_eval\<close>)
  qed
qed

lemma hsv_low_side:
  assumes "is_float h" and "k \<in> {1, 2, 3, 4, 5, 6}"
    and "60 * of_int k - 147 / 625 \<le> h" and "h < 60 * of_int k"
  shows "\<exists>ct. 254 \<le> ct \<and> ct \<le> 255
     \<and> hsv_to_rgb (Finite h) (Finite 1) (Finite 1) = Some (Inr (sector_select (k - 1) 255 0 0 ct))"
proof -
  have k: "1 \<le> k" "k \<le> 6" using assms(2) by auto
  then have "(1::real) \<le> of_int k" "real_of_int k \<le> 6" by simp_all
  then have rng: "0 \<le> h" "h < 360" using assms(3,4) by linarith+
  from quotient_below_boundary [OF assms] obtain z v
    where z: "h / 60 \<le> z" "float_round z = Finite v" "v < of_int k" by blast
  have lo: "of_int k - 257 / 65536 \<le> h / 60" using assms(3) by simp
  have "h \<le> 360" using rng(2) by simp
  note S = sector_low_side_rounded [OF assms(1) k lo z this]
  from S(2) obtain f
    where f: "fsub (fdiv (Finite h) (int_to_float 60)) (int_to_float (k - 1)) = Finite f"
      "is_float f" "65279 / 65536 \<le> f" "f \<le> 1" by blast
  note C = channels_fraction_high [OF f(2-4)]
  from C(2) obtain ct where ct: "channel (fmul (Finite 1) (fsub (int_to_float 1)
      (fmul (Finite 1) (fsub (int_to_float 1) (Finite f))))) = Inr ct" "254 \<le> ct" "ct \<le> 255"
    by blast
  have "hsv_sector (Finite h) (Finite 1) (Finite 1) = Inr (sector_select (k - 1) 255 0 0 ct)"
    by (rule hsv_sector_select [OF S(1) channel_1 channel_p_full])
      (simp_all only: f(1) C(1) ct(1))
  then show ?thesis
    unfolding hsv_to_rgb_in_range [OF assms(1) rng] using ct(2,3) by blast
qed

lemma hsv_high_side:
  assumes "is_float h" and "k \<in> {0, 1, 2, 3, 4, 5}"
    and "60 * of_int k \<le> h" and "h \<le> 60 * of_int k + 147 / 625"
  shows "\<exists>cq. 254 \<le> cq \<and> cq \<le> 255
     \<and> hsv_to_rgb (Finite h) (Finite 1) (Finite 1) = Some (Inr (sector_select k 255 0 cq 0))"
proof -
  have k: "0 \<le> k" "k \<le> 5" using assms(2) by auto
  then have "(0::real) \<le> of_int k" "real_of_int k \<le> 5" by simp_all
  then have rng: "0 \<le> h" "h < 360" using assms(3,4) by linarith+
  note S = sector_high_side [OF assms(1) k assms(3,4)]
  from S(2) obtain f
    where f: "fsub (fdiv (Finite h) (int_to_float 60)) (int_to_float k) = Finite f"
      "is_float f" "0 \<le> f" "f \<le> 257 / 65536" by blast
  note C = channels_fraction_low [OF f(2-4)]
  from C(1) obtain cq where cq: "channel (fmul (Finite 1) (fsub (int_to_float 1)
      (fmul (Finite 1) (Finite f)))) = Inr cq" "254 \<le> cq" "cq \<le> 255"
    by blast
  have "hsv_sector (Finite h) (Finite 1) (Finite 1) = Inr (sector_select k 255 0 cq 0)"
    by (rule hsv_sector_select [OF S(1) channel_1 channel_p_full])
      (simp_all only: f(1) C(2) cq(1))
  then show ?thesis
    unfolding hsv_to_rgb_in_range [OF assms(1) rng] using cq(2,3) by blast
qed

lemma boundary_distance:
  assumes "k \<in> {1, 2, 3, 4, 5, 6}" and "254 \<le> ct" and "ct \<le> 255" and "254 \<le> cq" and "cq \<le> 255"
  shows "channel_distance (sector_select (k - 1) 255 0 0 ct) (sector_select (k mod 6) 255 0 cq 0)
           \<le> 1"
proof -
  from assms(1) consider "k = 1" | "k = 2" | "k = 3" | "k = 4" | "k = 5" | "k = 6" by auto
  then show ?thesis
    using assms(2-5) by cases (simp_all add: sector_select_def channel_distance_def)
qed

lemma hsv_to_rgb_across_boundary:
  assumes "k \<in> {1, 2, 3, 4, 5, 6}" and "is_float h1" and "is_float h2"
    and "60 * of_int k - 147 / 625 \<le> h1" and "h1 < 60 * of_int k"
    and "60 * of_int (k mod 6) \<le> h2" and "h2 \<le> 60 * of_int (k mod 6) + 147 / 625"
  shows "\<exists>c d. hsv_to_rgb (Finite h1) (Finite 1) (Finite 1) = Some (Inr c)
           \<and> hsv_to_rgb (Finite h2) (Finite 1) (Finite 1) = Some (Inr d)
           \<and> channel_distance c d \<le> 1"
proof -
  from hsv_low_side [OF assms(2,1,4,5)] obtain ct
    where a: "254 \<le> ct" "ct \<le> 255"
      "hsv_to_rgb (Finite h1) (Finite 1) (Finite 1) = Some (Inr (sector_select (k - 1) 255 0 0 ct))"
    by blast
  have "k mod 6 \<in> {0, 1, 2, 3, 4, 5}" using assms(1) by auto
  from hsv_high_side [OF assms(3) this assms(6,7)] obtain cq
    where b: "254 \<le> cq" "cq \<le> 255"
      "hsv_to_rgb (Finite h2) (Finite 1) (Finite 1) = Some (Inr (sector_select (k mod 6) 255 0 cq 0))"
    by blast
  from boundary_distance [OF assms(1) a(1,2) b(1,2)] a(3) b(3) show ?thesis by blast
qed

section \<open>The channels at 0 at full saturation and value\<close>

lemma is_float_mid_fractions: "is_float (8225 / 2097152)" "is_float (2088927 / 2097152)"
  by (simp_all add: is_float_def fp_eval)

text \<open>
  The channel of t for a fraction not near 0 and the channel of q for a fraction not
  near 1 (saturation and value 1) are not 0.
\<close>

lemma channel_fraction_complement:
  assumes "is_float f" and "0 \<le> f" and "f \<le> 2088927 / 2097152"
  shows "\<exists>u c. fsub (int_to_float 1) (Finite f) = Finite u \<and> is_float u \<and> 8225 / 2097152 \<le> u \<and> u \<le> 1
           \<and> channel (Finite u) = Inr c \<and> 1 \<le> c \<and> c \<le> 255"
proof -
  from fsub_one_between [OF is_float_mid_fractions(1) is_float_1, of f] assms obtain u
    where u: "fsub (int_to_float 1) (Finite f) = Finite u" "is_float u" "8225 / 2097152 \<le> u" "u \<le> 1"
    by auto
  have "1 \<le> u * 255" "u * 255 \<le> 255" using u(3,4) by simp_all
  from channel_between [OF is_float_1 is_float_255 this]
  obtain n where "channel (Finite u) = Inr n" "trunc 1 \<le> n" "n \<le> trunc 255" by auto
  then have "channel (Finite u) = Inr n \<and> 1 \<le> n \<and> n \<le> 255" by (simp add: trunc_def)
  with u show ?thesis by blast
qed

lemma channel_q_not_high:
  assumes "is_float f" and "0 \<le> f" and "f \<le> 2088927 / 2097152"
  shows "\<exists>cq. channel (fmul (Finite 1) (fsub (int_to_float 1) (fmul (Finite 1) (Finite f))))
            = Inr cq \<and> 1 \<le> cq \<and> cq \<le> 255"
proof -
  from channel_fraction_complement [OF assms] obtain u c
    where u: "fsub (int_to_float 1) (Finite f) = Finite u" "is_float u"
      "channel (Finite u) = Inr c" "1 \<le> c" "c \<le> 255" by blast
  have "fmul (Finite 1) (fsub (int_to_float 1) (fmul (Finite 1) (Finite f))) = Finite u"
    by (simp only: fmul_one_left [OF assms(1)] u(1) fmul_one_left [OF u(2)])
  then show ?thesis using u(3-5) by simp
qed

lemma channel_t_not_low:
  assumes "is_float f" and "8225 / 2097152 \<le> f" and "f \<le> 1"
  shows "\<exists>ct. channel (fmul (Finite 1) (fsub (int_to_float 1)
            (fmul (Finite 1) (fsub (int_to_float 1) (Finite f))))) = Inr ct \<and> 1 \<le> ct \<and> ct \<le> 255"
proof -
  from fsub_one_between [OF is_float_0 is_float_mid_fractions(2), of f] assms obtain u
    where u: "fsub (int_to_float 1) (Finite f) = Finite u" "is_float u" "0 \<le> u" "u \<le> 2088927 / 2097152"
    by auto
  from channel_fraction_complement [OF u(2-4)] obtain w c
    where w: "fsub (int_to_float 1) (Finite u) = Finite w" "is_float w"
      "channel (Finite w) = Inr c" "1 \<le> c" "c \<le> 255" by blast
  have "fmul (Finite 1) (fsub (int_to_float 1) (fmul (Finite 1) (fsub (int_to_float 1) (Finite f))))
      = Finite w"
    by (simp only: u(1) fmul_one_left [OF u(2)] w(1) fmul_one_left [OF w(2)])
  then show ?thesis using w(3-5) by simp
qed

text \<open>
  Between two of the hues 0, 120, 240 and 360, at least 0.2354 of a degree away from
  them:
  the sector is one of two, with a fraction not near 0 in the even one and not near 1
  in the odd one.
\<close>

lemma sector_between_primaries:
  assumes "is_float h" and "m \<in> {0, 1, 2}"
    and "120 * of_int m + 1177 / 5000 \<le> h" and "h \<le> 120 * of_int m + 120 - 1177 / 5000"
  shows "\<exists>i f. float_to_int (fdiv (Finite h) (int_to_float 60)) = Inr i
           \<and> fsub (fdiv (Finite h) (int_to_float 60)) (int_to_float i) = Finite f \<and> is_float f
           \<and> 0 \<le> f \<and> f \<le> 1
           \<and> (i = 2 * m \<and> 8225 / 2097152 \<le> f \<or> i = 2 * m + 1 \<and> f \<le> 2088927 / 2097152)"
proof -
  have m: "0 \<le> m" "m \<le> 2" using assms(2) by auto
  have "\<bar>4194304 * m + 8225\<bar> < 2 ^ 24" using m by simp
  then have "is_float (of_int (4194304 * m + 8225) * 2 powi (- 21))" by (rule is_float_dyadic) simp_all
  moreover have "real_of_int (4194304 * m + 8225) * 2 powi (- 21) = 2 * of_int m + 8225 / 2097152"
    by (simp add: field_simps)
  ultimately have fa: "is_float (2 * of_int m + 8225 / 2097152)" by (simp only:)
  have "\<bar>4194304 * m + 4186079\<bar> < 2 ^ 24" using m by simp
  then have "is_float (of_int (4194304 * m + 4186079) * 2 powi (- 21))"
    by (rule is_float_dyadic) simp_all
  moreover have "real_of_int (4194304 * m + 4186079) * 2 powi (- 21) = 2 * of_int m + 4186079 / 2097152"
    by (simp add: field_simps)
  ultimately have fb: "is_float (2 * of_int m + 4186079 / 2097152)" by (simp only:)
  have "2 * of_int m + 8225 / 2097152 \<le> h / 60" "h / 60 \<le> 2 * of_int m + 4186079 / 2097152"
    using assms(3,4) by simp_all
  from float_round_between [OF fa fb this] obtain d
    where d: "float_round (h / 60) = Finite d" "is_float d" "2 * of_int m + 8225 / 2097152 \<le> d"
      "d \<le> 2 * of_int m + 4186079 / 2097152"
    by blast
  have fd: "fdiv (Finite h) (int_to_float 60) = Finite d" by (simp add: int_to_float_60 d(1))
  have mr: "(0::real) \<le> of_int m" "real_of_int m \<le> 2" using m by simp_all
  have d0: "0 \<le> d" "d \<le> 6" using d(3,4) mr by linarith+
  then have "\<bar>d\<bar> \<le> 2 ^ 24" by simp
  then have i: "float_to_int (Finite d) = Inr (trunc d)" by (rule float_to_int_small)
  have t: "trunc d = \<lfloor>d\<rfloor>" using d0(1) by (simp add: trunc_def)
  have "2 * m \<le> \<lfloor>d\<rfloor>" using d(3) by (simp add: le_floor_iff)
  moreover have "\<lfloor>d\<rfloor> < 2 * m + 2" using d(4) by (simp add: floor_less_iff)
  ultimately consider "\<lfloor>d\<rfloor> = 2 * m" | "\<lfloor>d\<rfloor> = 2 * m + 1" by linarith
  then show ?thesis
  proof cases
    case 1
    have k24: "\<bar>2 * m\<bar> \<le> 2 ^ 24" using m by simp
    have "real_of_int \<lfloor>d\<rfloor> \<le> d" "d < real_of_int \<lfloor>d\<rfloor> + 1" by linarith+
    then have "8225 / 2097152 \<le> d - of_int (2 * m)" "d - of_int (2 * m) \<le> 1"
      using d(3) unfolding 1 by simp_all
    from float_round_between [OF is_float_mid_fractions(1) is_float_1 this] obtain f
      where f: "float_round (d - of_int (2 * m)) = Finite f" "is_float f" "8225 / 2097152 \<le> f" "f \<le> 1"
      by blast
    have "fsub (fdiv (Finite h) (int_to_float 60)) (int_to_float (2 * m)) = Finite f"
      by (simp only: fd int_to_float_small [OF k24] fsub_Finite f(1))
    moreover have "float_to_int (fdiv (Finite h) (int_to_float 60)) = Inr (2 * m)"
      by (simp only: fd i t 1)
    ultimately show ?thesis using f(2-4) by (intro exI [of _ "2 * m"] exI [of _ f]) simp
  next
    case 2
    have k24: "\<bar>2 * m + 1\<bar> \<le> 2 ^ 24" using m by simp
    have "real_of_int \<lfloor>d\<rfloor> \<le> d" by linarith
    then have "0 \<le> d - of_int (2 * m + 1)" "d - of_int (2 * m + 1) \<le> 2088927 / 2097152"
      using d(4) unfolding 2 by simp_all
    from float_round_between [OF is_float_0 is_float_mid_fractions(2) this] obtain f
      where f: "float_round (d - of_int (2 * m + 1)) = Finite f" "is_float f" "0 \<le> f"
        "f \<le> 2088927 / 2097152"
      by blast
    have "fsub (fdiv (Finite h) (int_to_float 60)) (int_to_float (2 * m + 1)) = Finite f"
      by (simp only: fd int_to_float_small [OF k24] fsub_Finite f(1))
    moreover have "float_to_int (fdiv (Finite h) (int_to_float 60)) = Inr (2 * m + 1)"
      by (simp only: fd i t 2)
    ultimately show ?thesis using f(2-4) by (intro exI [of _ "2 * m + 1"] exI [of _ f]) simp
  qed
qed

lemma zero_channels_even:
  assumes "m \<in> {0, 1, 2}" and "1 \<le> ct"
  shows "zero_channels (sector_select (2 * m) 255 0 cq ct) = 1"
proof -
  from assms(1) consider "m = 0" | "m = 1" | "m = 2" by auto
  then show ?thesis
    using assms(2) by cases (simp_all add: sector_select_def zero_channels_def)
qed

lemma zero_channels_odd:
  assumes "m \<in> {0, 1, 2}" and "1 \<le> cq"
  shows "zero_channels (sector_select (2 * m + 1) 255 0 cq ct) = 1"
proof -
  from assms(1) consider "m = 0" | "m = 1" | "m = 2" by auto
  then show ?thesis
    using assms(2) by cases (simp_all add: sector_select_def zero_channels_def)
qed

text \<open>Exactly one channel is 0 from 0.2354 of a degree away from the hues 0, 120, 240, 360.\<close>

lemma hsv_between_primaries:
  assumes "is_float h" and "m \<in> {0, 1, 2}"
    and "120 * of_int m + 1177 / 5000 \<le> h" and "h \<le> 120 * of_int m + 120 - 1177 / 5000"
  shows "\<exists>c. hsv_to_rgb (Finite h) (Finite 1) (Finite 1) = Some (Inr c) \<and> zero_channels c = 1"
proof -
  have m: "0 \<le> m" "m \<le> 2" using assms(2) by auto
  then have "(0::real) \<le> of_int m" "real_of_int m \<le> 2" by simp_all
  then have rng: "0 \<le> h" "h < 360" using assms(3,4) by linarith+
  from sector_between_primaries [OF assms] obtain i f
    where i: "float_to_int (fdiv (Finite h) (int_to_float 60)) = Inr i"
      and f: "fsub (fdiv (Finite h) (int_to_float 60)) (int_to_float i) = Finite f" "is_float f"
        "0 \<le> f" "f \<le> 1"
      and c: "i = 2 * m \<and> 8225 / 2097152 \<le> f \<or> i = 2 * m + 1 \<and> f \<le> 2088927 / 2097152"
    by blast
  have uf: "unit_fp (Finite f)" using f(2-4) by (simp add: unit_fp_def)
  have uq: "unit_fp (fmul (Finite 1) (fsub (int_to_float 1) (fmul (Finite 1) (Finite f))))"
    using uf unit_fp_1 by (intro unit_fmul unit_one_minus)
  have ut: "unit_fp (fmul (Finite 1) (fsub (int_to_float 1)
      (fmul (Finite 1) (fsub (int_to_float 1) (Finite f)))))"
    using uf unit_fp_1 by (intro unit_fmul unit_one_minus)
  from channel_unit [OF uq] obtain cq
    where cq: "channel (fmul (Finite 1) (fsub (int_to_float 1) (fmul (Finite 1) (Finite f))))
      = Inr cq" by blast
  from channel_unit [OF ut] obtain ct
    where ct: "channel (fmul (Finite 1) (fsub (int_to_float 1)
      (fmul (Finite 1) (fsub (int_to_float 1) (Finite f))))) = Inr ct" by blast
  have sel: "hsv_sector (Finite h) (Finite 1) (Finite 1) = Inr (sector_select i 255 0 cq ct)"
    by (rule hsv_sector_select [OF i channel_1 channel_p_full]) (simp_all only: f(1) cq ct)
  have "zero_channels (sector_select i 255 0 cq ct) = 1"
  proof (cases "i = 2 * m")
    case True
    then have "8225 / 2097152 \<le> f" using c by auto
    from channel_t_not_low [OF f(2) this f(4)] ct have "1 \<le> ct" by auto
    then show ?thesis unfolding True using assms(2) by (intro zero_channels_even)
  next
    case False
    then have o: "i = 2 * m + 1" and "f \<le> 2088927 / 2097152" using c by auto
    from channel_q_not_high [OF f(2,3) this(2)] cq have "1 \<le> cq" by auto
    then show ?thesis unfolding o using assms(2) by (intro zero_channels_odd)
  qed
  then show ?thesis unfolding hsv_to_rgb_in_range [OF assms(1) rng] sel by simp
qed

text \<open>
  Within 0.2352 of a degree of the hues 0, 120, 240 and 360 the colour is a primary
  colour, with two channels at 0.
\<close>

lemma hsv_near_primary:
  assumes "is_float h" and "0 \<le> h" and "h < 360" and "n \<in> {0, 1, 2, 3}"
    and "\<bar>h - 120 * of_int n\<bar> \<le> 147 / 625"
  shows "hsv_to_rgb (Finite h) (Finite 1) (Finite 1) = Some (Inr (primary (n mod 3)))"
proof (cases "h < 120 * of_int n")
  case True
  have "n \<noteq> 0" using True assms(2) by auto
  then have k: "2 * n \<in> {1, 2, 3, 4, 5, 6}" using assms(4) by auto
  have "60 * real_of_int (2 * n) - 147 / 625 \<le> h" "h < 60 * real_of_int (2 * n)"
    using True assms(5) by simp_all
  from hsv_low_side [OF assms(1) k this] obtain ct
    where "hsv_to_rgb (Finite h) (Finite 1) (Finite 1)
      = Some (Inr (sector_select (2 * n - 1) 255 0 0 ct))" by blast
  moreover have "sector_select (2 * n - 1) 255 0 0 ct = primary (n mod 3)"
    using assms(4) \<open>n \<noteq> 0\<close> by (auto simp: sector_select_def primary_def)
  ultimately show ?thesis by simp
next
  case False
  have "n \<noteq> 3" using False assms(3) by auto
  then have k: "2 * n \<in> {0, 1, 2, 3, 4, 5}" using assms(4) by auto
  have "60 * real_of_int (2 * n) \<le> h" "h \<le> 60 * real_of_int (2 * n) + 147 / 625"
    using False assms(5) by simp_all
  from hsv_high_side [OF assms(1) k this] obtain cq
    where "hsv_to_rgb (Finite h) (Finite 1) (Finite 1)
      = Some (Inr (sector_select (2 * n) 255 0 cq 0))" by blast
  moreover have "sector_select (2 * n) 255 0 cq 0 = primary (n mod 3)"
    using assms(4) \<open>n \<noteq> 3\<close> by (auto simp: sector_select_def primary_def)
  ultimately show ?thesis by simp
qed

lemma zero_channels_primary: "n \<in> {0, 1, 2} \<Longrightarrow> zero_channels (primary n) = 2"
  by (auto simp: zero_channels_def primary_def)

section \<open>Hues shifted by 360, exactly and rounded\<close>








section \<open>The claims\<close>

text \<open>
  C1.  With the initial values of \<^verbatim>\<open>main\<close> (hue 0, saturation 1, value 0.3, the
  value being the \<^verbatim>\<open>float\<close> nearest to 0.3), \<^verbatim>\<open>hsv_to_rgb\<close> returns r = 76, g = 0,
  b = 0: sector 0 gives (v, t, p) with t = p = 0, and v * 255 is 76.5 in binary32,
  truncated to 76.
\<close>

theorem C1_hue0_sat1_val03:
  "hsv_to_rgb main_h0 main_s0 main_v0 = Some (Inr (76, 0, 0))"
  by (rule hsv_to_rgb_main_init)

text \<open>
  C2.  One pass through the motion statements of the pixel-space loop, for velocities
  of magnitude at most 65535 and a radius from 0 to 480.  On each axis: when the
  position after adding the velocity is within the radius of either bound (of 640
  on \<^verbatim>\<open>x\<close>, of 480 on \<^verbatim>\<open>y\<close>), the velocity is negated and added once more, which
  brings the position back to where it was before the pass; otherwise velocity and
  new position stand.  So from a state strictly inside the frame reduced by the
  radius, with unit velocities, the state after a bounce is again strictly inside.
\<close>

theorem C2_bounce_negates_and_steps_back:
  assumes "\<bar>var_dx m\<bar> \<le> 65535" and "\<bar>var_dy m\<bar> \<le> 65535"
    and "0 \<le> var_radius m" and "var_radius m \<le> 480"
  shows "\<exists>m'. move_ball m = Inr m'
     \<and> (let x1 = var_x m + word_of_int (var_dx m)
        in if 640 - var_radius m \<le> uint x1 \<or> uint x1 \<le> var_radius m
           then var_dx m' = - var_dx m \<and> var_x m' = x1 + word_of_int (var_dx m')
                \<and> var_x m' = var_x m
           else var_dx m' = var_dx m \<and> var_x m' = x1)
     \<and> (let y1 = var_y m + word_of_int (var_dy m)
        in if 480 - var_radius m \<le> uint y1 \<or> uint y1 \<le> var_radius m
           then var_dy m' = - var_dy m \<and> var_y m' = y1 + word_of_int (var_dy m')
                \<and> var_y m' = var_y m
           else var_dy m' = var_dy m \<and> var_y m' = y1)
     \<and> (ball_inside m \<longrightarrow> ball_inside m')"
proof -
  have "ball_inside m'" if "ball_inside m" "move_ball m = Inr m'" for m'
    using move_ball_inside [OF that(1)] that(2) by auto
  then show ?thesis
    unfolding move_ball_eq [OF assms] by (simp add: Let_def)
qed

theorem C2_bounce_negates_and_steps_back_witness:
  "\<exists>m'. move_ball (main_init\<lparr>var_x := 17, var_dx := - 1\<rparr>) = Inr m'
     \<and> var_dx m' = 1 \<and> var_x m' = 17 \<and> var_dy m' = 1 \<and> var_y m' = 21 \<and> ball_inside m'"
  using C2_bounce_negates_and_steps_back [of "main_init\<lparr>var_x := 17, var_dx := - 1\<rparr>"]
  by (simp add: main_init_def ball_inside_def) blast

text \<open>
  C3.  In \<^verbatim>\<open>sw/hello.c\<close>, \<^verbatim>\<open>x\<close> starts from the \<^verbatim>\<open>float\<close> nearest to 0.2 and \<^verbatim>\<open>y\<close> holds
  no value.  The first iteration converts the hue, writes the background, and then
  reads \<^verbatim>\<open>y\<close> in \<^verbatim>\<open>y += dy\<close>: undefined behaviour, before any position is written.
\<close>

theorem C3_y_read_uninitialised:
  "sw_x sw_init = Some (Finite (13421773 / 67108864)) \<and> sw_y sw_init = None
   \<and> sw_move_ball (sw_init\<lparr>sw_h := advance_hue (sw_h sw_init)\<rparr>) = Inl Uninitialised_read
   \<and> (\<exists>w'. sw_loop_body drv sw_init w = Some (Inl Uninitialised_read, w')
         \<and> ioctls w' = ioctls w @ [(VGA_BALL_WRITE_BACKGROUND, Background (color_of 255 0 0))])"
proof -
  have m: "sw_move_ball (sw_init\<lparr>sw_h := advance_hue (sw_h sw_init)\<rparr>) = Inl Uninitialised_read"
    by (rule sw_move_ball_uninitialised) (simp_all add: sw_init_eq)
  have h: "hsv_to_rgb (sw_h sw_init) (sw_s sw_init) (sw_v sw_init) = Some (Inr (255, 0, 0))"
    by (simp add: sw_init_eq hsv_to_rgb_sw_init)
  have l: "\<exists>w'. sw_loop_body drv sw_init w = Some (Inl Uninitialised_read, w')
         \<and> ioctls w' = ioctls w @ [(VGA_BALL_WRITE_BACKGROUND, Background (color_of 255 0 0))]"
    unfolding sw_loop_body_def h using m
    by (simp add: Let_def printf_def set_background_color_effect)
  show ?thesis using m l by (simp add: sw_init_eq)
qed

text \<open>
  C4.  Each of the four device operations issues its control call once.  When the
  call fails (a return value other than zero) the operation appends one diagnostic
  to \<^verbatim>\<open>stderr\<close>, writes nothing to \<^verbatim>\<open>stdout\<close>, issues no further call and returns.
  The variables of the loop after an iteration are the same whatever the driver
  answers, and an iteration that completes has issued exactly its three calls, in
  order: write background, write position, read position.
\<close>

theorem C4_failed_call_is_logged_and_loop_goes_on:
  "(fst (drv (driver w) VGA_BALL_WRITE_BACKGROUND (Background c)) \<noteq> 0 \<longrightarrow>
      ioctls (set_background_color drv c w) = ioctls w @ [(VGA_BALL_WRITE_BACKGROUND, Background c)]
      \<and> stderr (set_background_color drv c w) = stderr w @ [''ioctl(VGA_BALL_SET_BACKGROUND) failed'']
      \<and> stdout (set_background_color drv c w) = stdout w)
   \<and> (fst (drv (driver w) VGA_BALL_WRITE_POSITION (Position p)) \<noteq> 0 \<longrightarrow>
      ioctls (set_position drv p w) = ioctls w @ [(VGA_BALL_WRITE_POSITION, Position p)]
      \<and> stderr (set_position drv p w) = stderr w @ [''ioctl(VGA_BALL_SET_POSITION) failed'']
      \<and> stdout (set_position drv p w) = stdout w)
   \<and> (fst (drv (driver w) VGA_BALL_READ_BACKGROUND Indeterminate) \<noteq> 0 \<longrightarrow>
      ioctls (print_background_color drv w) = ioctls w @ [(VGA_BALL_READ_BACKGROUND, Indeterminate)]
      \<and> stderr (print_background_color drv w) = stderr w @ [''ioctl(VGA_BALL_READ_BACKGROUND) failed'']
      \<and> stdout (print_background_color drv w) = stdout w)
   \<and> (fst (drv (driver w) VGA_BALL_READ_POSITION Indeterminate) \<noteq> 0 \<longrightarrow>
      ioctls (print_position drv w) = ioctls w @ [(VGA_BALL_READ_POSITION, Indeterminate)]
      \<and> stderr (print_position drv w) = stderr w @ [''ioctl(VGA_BALL_READ_POSITION) failed'']
      \<and> stdout (print_position drv w) = stdout w)
   \<and> map_option fst (loop_body drv m w) = map_option fst (loop_body drv' m w'')
   \<and> (loop_body drv m w = Some (Inr m', w') \<longrightarrow>
      map fst (drop (length (ioctls w)) (ioctls w')) =
        [VGA_BALL_WRITE_BACKGROUND, VGA_BALL_WRITE_POSITION, VGA_BALL_READ_POSITION])"
proof -
  have "map_option fst (loop_body drv m w) = map_option fst (loop_body drv' m w'')"
    by (simp only: loop_body_vars)
  moreover have "map fst (drop (length (ioctls w)) (ioctls w')) =
        [VGA_BALL_WRITE_BACKGROUND, VGA_BALL_WRITE_POSITION, VGA_BALL_READ_POSITION]"
    if "loop_body drv m w = Some (Inr m', w')"
    using loop_body_calls [OF that] by auto
  ultimately show ?thesis
    by (simp add: set_background_color_effect set_position_effect print_position_effect
        print_background_color_effect)
qed

theorem C4_failed_call_is_logged_and_loop_goes_on_witness:
  "stderr (set_background_color rejecting_driver (color_of 76 0 0) fresh_world)
       = [''ioctl(VGA_BALL_SET_BACKGROUND) failed'']
   \<and> ioctls (set_background_color rejecting_driver (color_of 76 0 0) fresh_world)
       = [(VGA_BALL_WRITE_BACKGROUND, Background (color_of 76 0 0))]
   \<and> stderr (set_position rejecting_driver (position_of 21 21) fresh_world)
       = [''ioctl(VGA_BALL_SET_POSITION) failed'']
   \<and> stderr (print_background_color rejecting_driver fresh_world)
       = [''ioctl(VGA_BALL_READ_BACKGROUND) failed'']
   \<and> stdout (print_background_color rejecting_driver fresh_world) = []
   \<and> stderr (print_position rejecting_driver fresh_world)
       = [''ioctl(VGA_BALL_READ_POSITION) failed'']
   \<and> stdout (print_position rejecting_driver fresh_world) = []
   \<and> map_option fst (loop_body rejecting_driver main_init fresh_world)
       = map_option fst (loop_body accepting_driver main_init fresh_world)
   \<and> (\<exists>m' w'. loop_body rejecting_driver main_init fresh_world = Some (Inr m', w')
         \<and> map fst (ioctls w')
             = [VGA_BALL_WRITE_BACKGROUND, VGA_BALL_WRITE_POSITION, VGA_BALL_READ_POSITION])"
proof -
  from loop_body_inv [OF main_inv_main_init] obtain m' w'
    where l: "loop_body rejecting_driver main_init fresh_world = Some (Inr m', w')" by blast
  show ?thesis
    using C4_failed_call_is_logged_and_loop_goes_on [of rejecting_driver fresh_world
        "color_of 76 0 0" "position_of 21 21" main_init accepting_driver fresh_world m' w'] l
    by (simp add: rejecting_driver_def fresh_world_def)
qed

text \<open>
  C5 (as amended).  For every \<^verbatim>\<open>float\<close> hue of magnitude at most \<open>2 ^ 33\<close> (where the
  normalising loops end) and every \<^verbatim>\<open>float\<close> value whose product with 255 truncates to
  the \<^verbatim>\<open>int\<close> \<open>c\<close>, the conversion with saturation 0 returns \<open>(c, c, c)\<close>: p, q and t
  are the value itself, whichever sector the hue selects.
\<close>

theorem C5_saturation_zero_is_grey:
  assumes "is_float h" and "\<bar>h\<bar> \<le> 2 ^ 33" and "is_float v"
    and "float_to_int (fmul (Finite v) (int_to_float 255)) = Inr c"
  shows "hsv_to_rgb (Finite h) (Finite 0) (Finite v) = Some (Inr (c, c, c))"
  using assms hsv_to_rgb_grey [of h v c] by (simp add: channel_def)

theorem C5_saturation_zero_is_grey_witness:
  "hsv_to_rgb (Finite (2001 / 2)) (Finite 0) (Finite (5033165 / 16777216)) = Some (Inr (76, 76, 76))"
  using C5_saturation_zero_is_grey [of "2001 / 2" "5033165 / 16777216" 76]
  by (simp add: is_float_def fp_eval conv_eval)

text \<open>
  C5, the claim as stated, fails: for the hue \<open>10 ^ 10\<close> the subtraction of 360 rounds
  back to the hue, the first loop never ends and nothing is returned.
\<close>

theorem C5_counterexample_large_hue:
  "hsv_to_rgb (Finite 10000000000) (Finite 0) (Finite 1) = None"
  by (simp add: hsv_to_rgb_def normalise_hue_def while_ge_360_ten_thousand_million)







text \<open>
  C8.  The position written is a function of the internal position alone.  In the
  pixel-space variant each field is the coordinate shifted left by 6: 64 times the
  coordinate, and increasing with it, as long as the product fits the 16-bit field
  (coordinates below 1024, so all of the 640 by 480 frame).  In the normalised-space
  variant each field is the \<^verbatim>\<open>float\<close> product of the coordinate and the scale (170 on
  \<^verbatim>\<open>x\<close>, 120 on \<^verbatim>\<open>y\<close>), truncated: for coordinates between 0 and 1 it is defined,
  at most the scale, and increasing with the coordinate.
\<close>

theorem C8_output_position_monotonic:
  "pos_x (position_of x y) = shift_out x \<and> pos_y (position_of x y) = shift_out y
   \<and> (uint x' < 1024 \<and> x \<le> x' \<longrightarrow>
        uint (shift_out x) = 64 * uint x \<and> shift_out x \<le> shift_out x')
   \<and> (k \<in> {170, 120} \<and> is_float a \<and> is_float b \<and> 0 \<le> a \<and> a \<le> b \<and> b \<le> 1 \<longrightarrow>
        (\<exists>p q. scale_out k (Finite a) = Inr p \<and> scale_out k (Finite b) = Inr q \<and> p \<le> q
           \<and> uint p = trunc (near32 (a * of_int k)) \<and> uint q \<le> k))
   \<and> (scale_out 170 (Finite a) = Inr p \<and> scale_out 120 (Finite b) = Inr q \<longrightarrow>
        sw_position_of (Some (Finite a)) (Some (Finite b)) = Inr \<lparr>pos_x = p, pos_y = q\<rparr>)"
proof (intro conjI impI)
  show "pos_x (position_of x y) = shift_out x" "pos_y (position_of x y) = shift_out y"
    by (simp_all add: position_of_def)
next
  assume a: "uint x' < 1024 \<and> x \<le> x'"
  then have "uint x \<le> uint x'" by (simp add: word_le_def)
  then have "uint x < 1024" using a by simp
  then show "uint (shift_out x) = 64 * uint x" by (rule uint_shift_out)
  show "shift_out x \<le> shift_out x'" using a by (intro shift_out_mono) auto
next
  assume "k \<in> {170, 120} \<and> is_float a \<and> is_float b \<and> 0 \<le> a \<and> a \<le> b \<and> b \<le> 1"
  then show "\<exists>p q. scale_out k (Finite a) = Inr p \<and> scale_out k (Finite b) = Inr q \<and> p \<le> q
           \<and> uint p = trunc (near32 (a * of_int k)) \<and> uint q \<le> k"
    by (intro scale_out_mono) auto
next
  assume "scale_out 170 (Finite a) = Inr p \<and> scale_out 120 (Finite b) = Inr q"
  then show "sw_position_of (Some (Finite a)) (Some (Finite b)) = Inr \<lparr>pos_x = p, pos_y = q\<rparr>"
    by (simp add: sw_position_of_def read_var_def then_do_def)
qed

theorem C8_output_position_monotonic_witness:
  "uint (shift_out 20) = 1280 \<and> shift_out 20 \<le> shift_out 623
   \<and> (\<exists>p q. scale_out 170 (Finite (1 / 4)) = Inr p \<and> scale_out 170 (Finite (1 / 2)) = Inr q
         \<and> p \<le> q \<and> uint p = trunc (near32 (1 / 4 * 170)) \<and> uint q \<le> 170
         \<and> sw_position_of (Some (Finite (1 / 4))) (Some (Finite (1 / 2)))
             = Inr \<lparr>pos_x = 42, pos_y = 60\<rparr>)"
proof -
  have fl: "is_float (1 / 4)" "is_float (1 / 2)" by (simp_all add: is_float_def fp_eval)
  have s: "scale_out 170 (Finite (1 / 4)) = Inr 42" "scale_out 120 (Finite (1 / 2)) = Inr 60"
    by (simp_all add: scale_out_def float_to_ushort_def float_to_integer_def then_do_def
        trunc_def fp_eval)
  have "(20 :: 16 word) \<le> 623" by simp
  then show ?thesis
    using C8_output_position_monotonic [of 20 20 623 170 "1 / 4" "1 / 2" 42 60] fl s
    by simp
qed

text \<open>
  C9 (as amended).  For every \<^verbatim>\<open>float\<close> hue from 0 up to but not including 360, with
  saturation 1 and value 1, the conversion returns a colour with at least one
  channel at 0 and at least one at 255.  Exactly one channel is at 0 for every such
  hue at least 0.2354 of a degree (\<open>1177 / 5000\<close>) away from 0, 120, 240 and 360;
  within 0.2352 of a degree (\<open>147 / 625\<close>) of these four hues the colour is the
  primary colour red, green, blue and red again, with two channels at 0 (the change
  is at about \<open>60 / 255\<close> of a degree).  Across each sector boundary \<open>60 * k\<close> the
  colours differ by at most 1 in each channel: for any \<^verbatim>\<open>float\<close> hue less than 0.2352
  of a degree below the boundary and any \<^verbatim>\<open>float\<close> hue at the boundary or up to 0.2352
  above it, the boundary 360 continuing at 0 (so for 59.9 and 60.0).  A hue exactly
  at \<open>60 * j\<close> selects sector \<open>j\<close>.
\<close>

theorem C9_full_saturation_channels_and_boundaries:
  "(is_float h \<and> 0 \<le> h \<and> h < 360 \<longrightarrow>
      (\<exists>r g b. hsv_to_rgb (Finite h) (Finite 1) (Finite 1) = Some (Inr (r, g, b))
         \<and> (r = 0 \<or> g = 0 \<or> b = 0) \<and> (r = 255 \<or> g = 255 \<or> b = 255)
         \<and> 0 \<le> r \<and> r \<le> 255 \<and> 0 \<le> g \<and> g \<le> 255 \<and> 0 \<le> b \<and> b \<le> 255))
   \<and> (k \<in> {1, 2, 3, 4, 5, 6} \<and> is_float h1 \<and> is_float h2
        \<and> 60 * of_int k - 147 / 625 \<le> h1 \<and> h1 < 60 * of_int k
        \<and> 60 * of_int (k mod 6) \<le> h2 \<and> h2 \<le> 60 * of_int (k mod 6) + 147 / 625 \<longrightarrow>
      (\<exists>c d. hsv_to_rgb (Finite h1) (Finite 1) (Finite 1) = Some (Inr c)
         \<and> hsv_to_rgb (Finite h2) (Finite 1) (Finite 1) = Some (Inr d)
         \<and> channel_distance c d \<le> 1))
   \<and> (j \<in> {0, 1, 2, 3, 4, 5} \<longrightarrow>
      float_to_int (fdiv (Finite (60 * of_int j)) (int_to_float 60)) = Inr j)
   \<and> (m \<in> {0, 1, 2} \<and> is_float ha
        \<and> 120 * of_int m + 1177 / 5000 \<le> ha \<and> ha \<le> 120 * of_int m + 120 - 1177 / 5000 \<longrightarrow>
      (\<exists>c. hsv_to_rgb (Finite ha) (Finite 1) (Finite 1) = Some (Inr c) \<and> zero_channels c = 1))
   \<and> (n \<in> {0, 1, 2, 3} \<and> is_float hb \<and> 0 \<le> hb \<and> hb < 360
        \<and> \<bar>hb - 120 * of_int n\<bar> \<le> 147 / 625 \<longrightarrow>
      hsv_to_rgb (Finite hb) (Finite 1) (Finite 1) = Some (Inr (primary (n mod 3)))
      \<and> zero_channels (primary (n mod 3)) = 2)"
proof (intro conjI impI)
  assume "is_float h \<and> 0 \<le> h \<and> h < 360"
  then show "\<exists>r g b. hsv_to_rgb (Finite h) (Finite 1) (Finite 1) = Some (Inr (r, g, b))
         \<and> (r = 0 \<or> g = 0 \<or> b = 0) \<and> (r = 255 \<or> g = 255 \<or> b = 255)
         \<and> 0 \<le> r \<and> r \<le> 255 \<and> 0 \<le> g \<and> g \<le> 255 \<and> 0 \<le> b \<and> b \<le> 255"
    using hsv_to_rgb_full [of h] by blast
next
  assume "k \<in> {1, 2, 3, 4, 5, 6} \<and> is_float h1 \<and> is_float h2
        \<and> 60 * of_int k - 147 / 625 \<le> h1 \<and> h1 < 60 * of_int k
        \<and> 60 * of_int (k mod 6) \<le> h2 \<and> h2 \<le> 60 * of_int (k mod 6) + 147 / 625"
  then show "\<exists>c d. hsv_to_rgb (Finite h1) (Finite 1) (Finite 1) = Some (Inr c)
         \<and> hsv_to_rgb (Finite h2) (Finite 1) (Finite 1) = Some (Inr d)
         \<and> channel_distance c d \<le> 1"
    using hsv_to_rgb_across_boundary [of k h1 h2] by blast
next
  assume "j \<in> {0, 1, 2, 3, 4, 5}"
  then have "\<bar>j\<bar> \<le> 2 ^ 24" by auto
  then show "float_to_int (fdiv (Finite (60 * of_int j)) (int_to_float 60)) = Inr j"
    by (rule sector_at_boundary)
next
  assume "m \<in> {0, 1, 2} \<and> is_float ha
        \<and> 120 * of_int m + 1177 / 5000 \<le> ha \<and> ha \<le> 120 * of_int m + 120 - 1177 / 5000"
  then show "\<exists>c. hsv_to_rgb (Finite ha) (Finite 1) (Finite 1) = Some (Inr c)
      \<and> zero_channels c = 1"
    using hsv_between_primaries [of ha m] by blast
next
  assume "n \<in> {0, 1, 2, 3} \<and> is_float hb \<and> 0 \<le> hb \<and> hb < 360
        \<and> \<bar>hb - 120 * of_int n\<bar> \<le> 147 / 625"
  then show "hsv_to_rgb (Finite hb) (Finite 1) (Finite 1) = Some (Inr (primary (n mod 3)))"
    using hsv_near_primary [of hb n] by blast
next
  assume "n \<in> {0, 1, 2, 3} \<and> is_float hb \<and> 0 \<le> hb \<and> hb < 360
        \<and> \<bar>hb - 120 * of_int n\<bar> \<le> 147 / 625"
  then have "n mod 3 \<in> {0, 1, 2}" by auto
  then show "zero_channels (primary (n mod 3)) = 2" by (rule zero_channels_primary)
qed

theorem C9_full_saturation_channels_and_boundaries_witness:
  "(\<exists>r g b. hsv_to_rgb (Finite (599 / 2)) (Finite 1) (Finite 1) = Some (Inr (r, g, b))
         \<and> (r = 0 \<or> g = 0 \<or> b = 0) \<and> (r = 255 \<or> g = 255 \<or> b = 255)
         \<and> 0 \<le> r \<and> r \<le> 255 \<and> 0 \<le> g \<and> g \<le> 255 \<and> 0 \<le> b \<and> b \<le> 255)
   \<and> (\<exists>c d. hsv_to_rgb (float_literal (599 / 10)) (Finite 1) (Finite 1) = Some (Inr c)
         \<and> hsv_to_rgb (float_literal 60) (Finite 1) (Finite 1) = Some (Inr d)
         \<and> channel_distance c d \<le> 1)
   \<and> float_to_int (fdiv (Finite (60 * of_int 5)) (int_to_float 60)) = Inr 5
   \<and> (\<exists>c. hsv_to_rgb (Finite 30) (Finite 1) (Finite 1) = Some (Inr c) \<and> zero_channels c = 1)
   \<and> hsv_to_rgb (Finite (959 / 8)) (Finite 1) (Finite 1) = Some (Inr (0, 255, 0))
   \<and> zero_channels (0, 255, 0) = 2"
proof -
  have "is_float (599 / 2)" "is_float 30" "is_float (959 / 8)"
    by (simp_all add: is_float_def fp_eval)
  then show ?thesis
    using C9_full_saturation_channels_and_boundaries
      [of "599 / 2" 1 "7851213 / 131072" 60 5 0 30 1 "959 / 8"]
      is_float_literals(1,7)
    by (simp add: float_literals primary_def)
qed

text \<open>
  C9, the claim as stated, fails: at hue 0 (saturation 1, value 1) the colour is
  (255, 0, 0), with two channels at 0, not exactly one.
\<close>

theorem C9_counterexample_two_channels_zero:
  "is_float 0 \<and> hsv_to_rgb (Finite 0) (Finite 1) (Finite 1) = Some (Inr (255, 0, 0))
   \<and> zero_channels (255, 0, 0) = 2"
  using is_float_0 hsv_to_rgb_sw_init by (simp add: zero_channels_def)

text \<open>
  C10.  The initial state of \<^verbatim>\<open>main\<close> has the ball strictly inside the frame reduced
  by the radius (16 < x < 624, 16 < y < 464) with unit velocities, and so has the
  state after any number of iterations, none of which is undefined or fails to end.
  In such a state the next additions of the velocities do not wrap, and the fields
  of the position written are 64 times the coordinates, at most 639 * 64 and
  479 * 64.
\<close>

theorem C10_ball_stays_inside:
  "ball_inside main_init
   \<and> (\<exists>m w'. iterations drv n main_init w = Some (Inr m, w') \<and> ball_inside m
        \<and> uint (var_x m + word_of_int (var_dx m)) = uint (var_x m) + var_dx m
        \<and> uint (var_y m + word_of_int (var_dy m)) = uint (var_y m) + var_dy m
        \<and> uint (pos_x (position_of (var_x m) (var_y m))) = 64 * uint (var_x m)
        \<and> uint (pos_y (position_of (var_x m) (var_y m))) = 64 * uint (var_y m)
        \<and> uint (pos_x (position_of (var_x m) (var_y m))) \<le> 639 * 64
        \<and> uint (pos_y (position_of (var_x m) (var_y m))) \<le> 479 * 64)"
proof -
  from iterations_inv [OF main_inv_main_init] obtain m w'
    where it: "iterations drv n main_init w = Some (Inr m, w')" and inv: "main_inv m" by blast
  from inv have b: "ball_inside m" by (simp add: main_inv_def)
  then have dx: "var_dx m = 1 \<or> var_dx m = - 1" and dy: "var_dy m = 1 \<or> var_dy m = - 1"
    and x: "16 < uint (var_x m)" "uint (var_x m) < 624"
    and y: "16 < uint (var_y m)" "uint (var_y m) < 464"
    by (auto simp: ball_inside_def)
  have ux: "uint (var_x m + word_of_int (var_dx m)) = uint (var_x m) + var_dx m"
    using dx x by (intro uint_plus_int) auto
  have uy: "uint (var_y m + word_of_int (var_dy m)) = uint (var_y m) + var_dy m"
    using dy y by (intro uint_plus_int) auto
  have sx: "uint (shift_out (var_x m)) = 64 * uint (var_x m)"
    using x by (intro uint_shift_out) simp
  have sy: "uint (shift_out (var_y m)) = 64 * uint (var_y m)"
    using y by (intro uint_shift_out) simp
  have "ball_inside m
        \<and> uint (var_x m + word_of_int (var_dx m)) = uint (var_x m) + var_dx m
        \<and> uint (var_y m + word_of_int (var_dy m)) = uint (var_y m) + var_dy m
        \<and> uint (pos_x (position_of (var_x m) (var_y m))) = 64 * uint (var_x m)
        \<and> uint (pos_y (position_of (var_x m) (var_y m))) = 64 * uint (var_y m)
        \<and> uint (pos_x (position_of (var_x m) (var_y m))) \<le> 639 * 64
        \<and> uint (pos_y (position_of (var_x m) (var_y m))) \<le> 479 * 64"
    using b ux uy sx sy x y by (simp add: position_of_def)
  with it ball_inside_main_init show ?thesis by blast
qed
theorem C10_ball_stays_inside_witness:
  "\<exists>m w'. iterations accepting_driver 3 main_init fresh_world = Some (Inr m, w')
     \<and> ball_inside m
     \<and> uint (pos_x (position_of (var_x m) (var_y m))) \<le> 639 * 64
     \<and> uint (pos_y (position_of (var_x m) (var_y m))) \<le> 479 * 64"
  using C10_ball_stays_inside [of accepting_driver 3 fresh_world] by blast

end
